theory Spec2Isabelle
  imports Complex_Main
begin

section \<open>JavaScript strings and numbers\<close>

text \<open>
  The parser works on the text obtained from \<^verbatim>\<open>StringUtils.fromUTF8(data)\<close>; decoding is
  an external collaborator, so the model starts from the decoded text. A JavaScript string
  is a sequence of 16-bit code units; the model takes a code unit as an integer (from 0 to
  65535) and a string as the list of its code units. \<open>js\<close> gives the string of an ASCII
  literal and \<open>ch\<close> the code unit of an ASCII character. The optional results of the source
  (\<^verbatim>\<open>null\<close>, \<^verbatim>\<open>undefined\<close>) are \<^typ>\<open>'a option\<close>.
\<close>

type_synonym jsstring = "int list"

abbreviation ch :: "char \<Rightarrow> int" where "ch c \<equiv> of_char c"

definition js :: "string \<Rightarrow> jsstring" where
  "js s = map of_char s"

abbreviation LF :: int where "LF \<equiv> ch (CHR 0x0A)"
abbreviation CR :: int where "CR \<equiv> ch (CHR 0x0D)"
abbreviation TAB :: int where "TAB \<equiv> ch (CHR 0x09)"
abbreviation SPACE :: int where "SPACE \<equiv> ch (CHR 0x20)"
abbreviation DQUOTE :: int where "DQUOTE \<equiv> ch (CHR 0x22)"

text \<open>The line terminators of ECMAScript: LF, CR, and the line separator U+2028 (LS) and
  the paragraph separator U+2029 (PS). In a regular expression the dot matches none of them, and with the
  flag \<^verbatim>\<open>m\<close> the assertions \<^verbatim>\<open>^\<close> and \<^verbatim>\<open>$\<close> also hold after and before one.\<close>

abbreviation LS :: int where "LS \<equiv> 0x2028"
abbreviation PS :: int where "PS \<equiv> 0x2029"

definition isLineTerminator :: "int \<Rightarrow> bool" where
  "isLineTerminator c \<longleftrightarrow> c = LF \<or> c = CR \<or> c = LS \<or> c = PS"

text \<open>White space as \<^verbatim>\<open>String.prototype.trim\<close> and \<^verbatim>\<open>Number\<close> strip it: the white space
  code points TAB, VT, FF, SP, NBSP, U+FEFF and the other space separators, and the line
  terminators.\<close>

definition isWhiteSpace :: "int \<Rightarrow> bool" where
  "isWhiteSpace c \<longleftrightarrow>
     c \<in> set [0x09, 0x0A, 0x0B, 0x0C, 0x0D, 0x20, 0xA0, 0x1680,
              0x2000, 0x2001, 0x2002, 0x2003, 0x2004, 0x2005, 0x2006, 0x2007, 0x2008, 0x2009,
              0x200A, 0x2028, 0x2029, 0x202F, 0x205F, 0x3000, 0xFEFF]"

definition trim :: "jsstring \<Rightarrow> jsstring" where
  "trim s = rev (dropWhile isWhiteSpace (rev (dropWhile isWhiteSpace s)))"

definition startsWith :: "jsstring \<Rightarrow> jsstring \<Rightarrow> bool" where
  "startsWith s p \<longleftrightarrow> take (length p) s = p"

text \<open>\<^verbatim>\<open>str.replace(/\r\n|\r(?=[^\n]|$)/gm, '\n')\<close>: a CR LF pair becomes one LF, and every
  other CR (followed by a code unit that is not LF, or at the end) becomes LF.\<close>

fun normalizeNewlines :: "jsstring \<Rightarrow> jsstring" where
  "normalizeNewlines [] = []"
| "normalizeNewlines [c] = (if c = CR then [LF] else [c])"
| "normalizeNewlines (c # d # cs) =
     (if c = CR \<and> d = LF then LF # normalizeNewlines cs
      else if c = CR then LF # normalizeNewlines (d # cs)
      else c # normalizeNewlines (d # cs))"

text \<open>\<^verbatim>\<open>str.split(/\n+/m)\<close>: the pieces between maximal runs of LF. A separator at the very
  start or end yields an empty piece there, and the empty string yields one empty piece.\<close>

fun splitNewlines :: "jsstring \<Rightarrow> jsstring list" where
  "splitNewlines [] = [[]]"
| "splitNewlines (c # cs) =
     (if c = LF then (case cs of d # _ \<Rightarrow> if d = LF then splitNewlines cs else [] # splitNewlines cs
                                | [] \<Rightarrow> [[], []])
      else (case splitNewlines cs of l # ls \<Rightarrow> (c # l) # ls | [] \<Rightarrow> [[c]]))"

text \<open>\<^verbatim>\<open>strs.join(sep)\<close>.\<close>

fun join :: "jsstring \<Rightarrow> jsstring list \<Rightarrow> jsstring" where
  "join sep [] = []"
| "join sep [s] = s"
| "join sep (s # t # ts) = s @ sep @ join sep (t # ts)"

subsection \<open>Number\<close>

text \<open>
  A JavaScript number is a binary64 float. \<open>Finite neg m e\<close> is the finite value
  \<open>(-1)\<^bsup>neg\<^esup> * m * 2\<^bsup>e\<^esup>\<close> with \<open>m\<close> odd, or with \<open>m = 0\<close> and \<open>e = 0\<close> for the two zeros;
  every finite binary64 value has exactly one such form.
\<close>

datatype number = NaN | Infinity bool | Finite bool int int

definition isNaN :: "number \<Rightarrow> bool" where
  "isNaN n \<longleftrightarrow> n = NaN"

text \<open>JavaScript truthiness of a number: false for the zeros and for NaN.\<close>

definition truthy :: "number \<Rightarrow> bool" where
  "truthy n \<longleftrightarrow> (case n of NaN \<Rightarrow> False | Infinity _ \<Rightarrow> True | Finite _ m _ \<Rightarrow> m \<noteq> 0)"

text \<open>The number of binary digits of a positive integer.\<close>

function bitlen :: "int \<Rightarrow> int" where
  "bitlen n = (if n \<le> 0 then 0 else bitlen (n div 2) + 1)"
  by pat_completeness auto
termination
  by (relation "measure nat") auto

declare bitlen.simps [simp del]

text \<open>The floor of the binary logarithm of \<open>p / q\<close>, for positive \<open>p\<close> and \<open>q\<close>.\<close>

definition floorLog2 :: "int \<Rightarrow> int \<Rightarrow> int" where
  "floorLog2 p q =
     (let b = bitlen p - bitlen q
      in if (if 0 \<le> b then q * 2 ^ nat b \<le> p else q \<le> p * 2 ^ nat (- b)) then b else b - 1)"

text \<open>The integer nearest to \<open>p / q\<close>, for \<open>q > 0\<close>; of two nearest integers the even one.\<close>

definition roundHalfEven :: "int \<Rightarrow> int \<Rightarrow> int" where
  "roundHalfEven p q =
     (let d = p div q; r = p mod q
      in if 2 * r < q then d
         else if q < 2 * r then d + 1
         else if even d then d else d + 1)"

text \<open>The unique form of \<open>m * 2\<^bsup>e\<^esup>\<close>.\<close>

function normFloat :: "int \<Rightarrow> int \<Rightarrow> int \<times> int" where
  "normFloat m e =
     (if m = 0 then (0, 0)
      else if even m then normFloat (m div 2) (e + 1)
      else (m, e))"
  by pat_completeness auto
termination
  by (relation "measure (\<lambda>(m, e). nat \<bar>m\<bar>)") auto

declare normFloat.simps [simp del]

text \<open>
  The Number value for the mathematical value \<open>p / q\<close> (with \<open>p \<ge> 0\<close> and \<open>q > 0\<close>) and a
  sign: the value is rounded to the nearest binary64 value, ties to even. With \<open>x\<close> the
  floor of its binary logarithm, the binary64 values near \<open>p / q\<close> are the multiples of
  \<open>2\<^bsup>k\<^esup>\<close> for \<open>k = x - 52\<close>, and for \<open>k = -1074\<close> in the subnormal range. A result of
  \<open>2\<^bsup>1024\<^esup>\<close> or more is infinite, and a value that rounds to no multiple is a zero.
\<close>

definition toDouble :: "bool \<Rightarrow> int \<Rightarrow> int \<Rightarrow> number" where
  "toDouble neg p q =
     (if p = 0 then Finite neg 0 0
      else
        (let k = max (floorLog2 p q - 52) (- 1074);
             n = (if 0 \<le> k then roundHalfEven p (q * 2 ^ nat k)
                  else roundHalfEven (p * 2 ^ nat (- k)) q)
         in if 971 \<le> k \<and> 2 ^ 1024 \<le> n * 2 ^ nat k then Infinity neg
            else (case normFloat n k of (m, e) \<Rightarrow> Finite neg m e)))"

text \<open>The Number value of an integer, as for a numeric literal of the source.\<close>

definition numberOfInt :: "int \<Rightarrow> number" where
  "numberOfInt i = toDouble (i < 0) \<bar>i\<bar> 1"

text \<open>
  The result of \<^verbatim>\<open>Number(string)\<close> (ECMAScript StringToNumber): the Number value of the
  numeric literal that the string holds between white space, 0 for a string of white space
  only, and NaN for any other string. For a decimal literal of more than 20 significant
  digits the standard lets an implementation round a literal cut after the 20th digit; the
  model rounds the value of the whole literal, as the engines do.
\<close>

definition isDigit :: "int \<Rightarrow> bool" where
  "isDigit c \<longleftrightarrow> ch CHR ''0'' \<le> c \<and> c \<le> ch CHR ''9''"

definition isHexDigit :: "int \<Rightarrow> bool" where
  "isHexDigit c \<longleftrightarrow>
     isDigit c \<or> (ch CHR ''a'' \<le> c \<and> c \<le> ch CHR ''f'') \<or> (ch CHR ''A'' \<le> c \<and> c \<le> ch CHR ''F'')"

definition digitVal :: "int \<Rightarrow> int" where
  "digitVal c =
     (if isDigit c then c - ch CHR ''0''
      else if ch CHR ''a'' \<le> c then c - ch CHR ''a'' + 10
      else c - ch CHR ''A'' + 10)"

definition digitsVal :: "int \<Rightarrow> jsstring \<Rightarrow> int" where
  "digitsVal base ds = foldl (\<lambda>a d. base * a + digitVal d) 0 ds"

text \<open>The exponent part of a decimal literal: empty, or \<^verbatim>\<open>e\<close> or \<^verbatim>\<open>E\<close> with an optional
  sign and digits.\<close>

definition exponentPart :: "jsstring \<Rightarrow> int option" where
  "exponentPart s =
     (case s of
        [] \<Rightarrow> Some 0
      | e # r \<Rightarrow>
          if e = ch CHR ''e'' \<or> e = ch CHR ''E'' then
            (let neg = (case r of c # _ \<Rightarrow> c = ch CHR ''-'' | [] \<Rightarrow> False);
                 ds = (case r of
                         c # r' \<Rightarrow> if c = ch CHR ''+'' \<or> c = ch CHR ''-'' then r' else r
                       | [] \<Rightarrow> [])
             in if ds \<noteq> [] \<and> list_all isDigit ds
                then Some (if neg then - digitsVal 10 ds else digitsVal 10 ds)
                else None)
          else None)"

text \<open>The Number value of \<open>d * 10\<^bsup>x\<^esup>\<close> for \<open>d \<ge> 0\<close>.\<close>

definition decimalValue :: "int \<Rightarrow> int \<Rightarrow> number" where
  "decimalValue d x =
     (if 0 \<le> x then toDouble False (d * 10 ^ nat x) 1 else toDouble False d (10 ^ nat (- x)))"

text \<open>StrUnsignedDecimalLiteral: \<^verbatim>\<open>Infinity\<close>, or digits with an optional fraction, or a
  fraction alone, each with an optional exponent part.\<close>

definition strUnsignedDecimalLiteral :: "jsstring \<Rightarrow> number option" where
  "strUnsignedDecimalLiteral s =
     (if s = js ''Infinity'' then Some (Infinity False)
      else
        (let ip = takeWhile isDigit s;
             r1 = dropWhile isDigit s;
             dot = (case r1 of c # _ \<Rightarrow> c = ch CHR ''.'' | [] \<Rightarrow> False);
             fp = (if dot then takeWhile isDigit (tl r1) else []);
             r2 = (if dot then dropWhile isDigit (tl r1) else r1)
         in if ip = [] \<and> fp = [] then None
            else (case exponentPart r2 of
                    None \<Rightarrow> None
                  | Some x \<Rightarrow> Some (decimalValue (digitsVal 10 (ip @ fp)) (x - int (length fp))))))"

definition negate :: "number \<Rightarrow> number" where
  "negate n =
     (case n of NaN \<Rightarrow> NaN | Infinity b \<Rightarrow> Infinity (\<not> b) | Finite b m e \<Rightarrow> Finite (\<not> b) m e)"

text \<open>NonDecimalIntegerLiteral: \<^verbatim>\<open>0x\<close>, \<^verbatim>\<open>0o\<close> and \<^verbatim>\<open>0b\<close> literals, which take no
  sign.\<close>

definition nonDecimalIntegerLiteral :: "jsstring \<Rightarrow> number option" where
  "nonDecimalIntegerLiteral s =
     (case s of
        z # x # ds \<Rightarrow>
          if z \<noteq> ch CHR ''0'' \<or> ds = [] then None
          else if (x = ch CHR ''x'' \<or> x = ch CHR ''X'') \<and> list_all isHexDigit ds
            then Some (toDouble False (digitsVal 16 ds) 1)
          else if (x = ch CHR ''o'' \<or> x = ch CHR ''O'')
                  \<and> list_all (\<lambda>c. ch CHR ''0'' \<le> c \<and> c \<le> ch CHR ''7'') ds
            then Some (toDouble False (digitsVal 8 ds) 1)
          else if (x = ch CHR ''b'' \<or> x = ch CHR ''B'')
                  \<and> list_all (\<lambda>c. c = ch CHR ''0'' \<or> c = ch CHR ''1'') ds
            then Some (toDouble False (digitsVal 2 ds) 1)
          else None
      | _ \<Rightarrow> None)"

definition strNumericLiteral :: "jsstring \<Rightarrow> number option" where
  "strNumericLiteral s =
     (case nonDecimalIntegerLiteral s of
        Some n \<Rightarrow> Some n
      | None \<Rightarrow>
          (case s of
             c # r \<Rightarrow>
               if c = ch CHR ''+'' then strUnsignedDecimalLiteral r
               else if c = ch CHR ''-'' then map_option negate (strUnsignedDecimalLiteral r)
               else strUnsignedDecimalLiteral s
           | [] \<Rightarrow> None))"

text \<open>\<^verbatim>\<open>Number(s)\<close> for a string \<^verbatim>\<open>s\<close>.\<close>

definition Number :: "jsstring \<Rightarrow> number" where
  "Number s =
     (let t = trim s
      in if t = [] then Finite False 0 0
         else (case strNumericLiteral t of Some n \<Rightarrow> n | None \<Rightarrow> NaN))"

text \<open>\<^verbatim>\<open>Number(x || d)\<close> for an optional string \<^verbatim>\<open>x\<close> and an integer literal \<^verbatim>\<open>d\<close>: the
  default is taken when \<^verbatim>\<open>x\<close> is null, undefined or empty.\<close>

definition NumberOr :: "jsstring option \<Rightarrow> int \<Rightarrow> number" where
  "NumberOr x d =
     (case x of None \<Rightarrow> numberOfInt d | Some s \<Rightarrow> if s = [] then numberOfInt d else Number s)"

section \<open>The document model\<close>

text \<open>\<^verbatim>\<open>shaka.hls.Attribute\<close>. The value is a string, but the parser also stores
  \<^verbatim>\<open>undefined\<close> there (an empty quoted value, or the URI of a stream variant on the last
  line), which is \<^const>\<open>None\<close>.\<close>

record Attribute =
  attr_name :: jsstring
  attr_value :: "jsstring option"

text \<open>\<^verbatim>\<open>shaka.hls.Tag\<close>. Tags are objects; the model holds them by value and the \<^verbatim>\<open>id\<close>
  field tells them apart.\<close>

record Tag =
  tag_id :: nat
  tag_name :: jsstring
  tag_attributes :: "Attribute list"
  tag_value :: "jsstring option"

definition addAttribute :: "Tag \<Rightarrow> Attribute \<Rightarrow> Tag" where
  "addAttribute t a = t\<lparr>tag_attributes := tag_attributes t @ [a]\<rparr>"

definition setName :: "Tag \<Rightarrow> jsstring \<Rightarrow> Tag" where
  "setName t n = t\<lparr>tag_name := n\<rparr>"

text \<open>\<^verbatim>\<open>getAttribute\<close> returns the first attribute of that name (its assertion that there
  is at most one only logs).\<close>

definition getAttribute :: "Tag \<Rightarrow> jsstring \<Rightarrow> Attribute option" where
  "getAttribute t n =
     (case filter (\<lambda>a. attr_name a = n) (tag_attributes t) of [] \<Rightarrow> None | a # _ \<Rightarrow> Some a)"

text \<open>\<^verbatim>\<open>getAttributeValue(name)\<close> without a default: null when the attribute is missing,
  and the stored value (possibly \<^verbatim>\<open>undefined\<close>) otherwise; both are \<^const>\<open>None\<close>.\<close>

definition getAttributeValue :: "Tag \<Rightarrow> jsstring \<Rightarrow> jsstring option" where
  "getAttributeValue t n = (case getAttribute t n of None \<Rightarrow> None | Some a \<Rightarrow> attr_value a)"

text \<open>\<^verbatim>\<open>Tag.toString(attributesToSkip)\<close>. An attribute value is written without quotes
  when \<^verbatim>\<open>!isNaN(Number(attr.value))\<close>; \<^verbatim>\<open>undefined\<close> converts to NaN and concatenates as
  the text \<^verbatim>\<open>undefined\<close>.\<close>

definition attrToStr :: "Attribute \<Rightarrow> jsstring" where
  "attrToStr attr =
     (case attr_value attr of
        None \<Rightarrow> attr_name attr @ js ''='' @ [DQUOTE] @ js ''undefined'' @ [DQUOTE]
      | Some v \<Rightarrow>
          (let isNumericAttr = \<not> isNaN (Number v);
               val = (if isNumericAttr then v else [DQUOTE] @ v @ [DQUOTE])
           in attr_name attr @ js ''='' @ val))"

definition toString :: "jsstring list option \<Rightarrow> Tag \<Rightarrow> jsstring" where
  "toString attributesToSkip t =
     (let tagStr = js ''#'' @ tag_name t;
          appendages = map attrToStr
            (filter (\<lambda>attr. case attributesToSkip of None \<Rightarrow> True
                             | Some skip \<Rightarrow> attr_name attr \<notin> set skip) (tag_attributes t));
          appendages = (case tag_value t of
                          Some v \<Rightarrow> if v \<noteq> [] then v # appendages else appendages
                        | None \<Rightarrow> appendages)
      in if length appendages > 0 then tagStr @ js '':'' @ join (js '','') appendages else tagStr)"


text \<open>\<^verbatim>\<open>getTagKey(keepAllAttributes)\<close>.\<close>

definition getTagKey :: "bool \<Rightarrow> Tag \<Rightarrow> jsstring" where
  "getTagKey keepAllAttributes t =
     (if keepAllAttributes then toString None t
      else toString (Some [js ''AUDIO'', js ''VIDEO'', js ''SUBTITLES'', js ''PATHWAY-ID'', js ''GROUP-ID'', js ''URI'']) t)"

text \<open>\<^verbatim>\<open>SegmentComputed\<close>, \<^verbatim>\<open>PlaylistComputed\<close>, \<^verbatim>\<open>SegmentsComputed\<close> and
  \<^verbatim>\<open>PlaylistComputedData\<close>.\<close>

record SegmentComputed =
  extinf :: "Tag option"
  extinfDuration :: number
  map_c :: "Tag option"
  mapId :: "nat option"
  gap :: "Tag option"
  byterange :: "Tag option"
  discontinuity :: "Tag option"
  keys :: "Tag list"
  bitrate :: number
  dateTime :: "Tag option"
  tiles :: "Tag option"

record PlaylistComputed =
  mediaSequence :: number
  skippedSegments :: number
  discontinuitySequence :: number
  skipTag :: "Tag option"
  endListTag :: "Tag option"
  serverControlTag :: "Tag option"
  playlistTypeTag :: "Tag option"
  startTag :: "Tag option"
  partInfTag :: "Tag option"
  targetDurationTag :: "Tag option"
  variableTags :: "Tag list"
  dateRangeTags :: "Tag list"
  mediaTags :: "Tag list"
  variantTags :: "Tag list"
  imageTags :: "Tag list"
  iFrameTags :: "Tag list"
  sessionKeyTags :: "Tag list"
  sessionDataTags :: "Tag list"
  contentSteeringTags :: "Tag list"

record SegmentsComputed =
  count :: nat
  gapCount :: nat
  lastExtinfDuration :: "number option"

record PlaylistComputedData =
  playlist :: PlaylistComputed
  segments :: SegmentsComputed

text \<open>\<^verbatim>\<open>shaka.hls.Segment\<close>.\<close>

record Segment =
  seg_tags :: "Tag list"
  verbatimSegmentUri :: jsstring
  partialSegments :: "Tag list"
  seg_computed :: SegmentComputed

definition newSegment :: "jsstring \<Rightarrow> Tag list \<Rightarrow> SegmentComputed \<Rightarrow> Tag list \<Rightarrow> Segment" where
  "newSegment uri tags computed partials =
     \<lparr>seg_tags = tags, verbatimSegmentUri = uri, partialSegments = partials,
      seg_computed = computed\<rparr>"

datatype PlaylistType = MASTER | MEDIA

text \<open>\<^verbatim>\<open>shaka.hls.Playlist\<close>. The constructor stores \<^verbatim>\<open>segments || null\<close>; an array, also
  the empty one, is truthy, so only a missing argument becomes null.\<close>

record Playlist =
  pl_type :: PlaylistType
  pl_tags :: "Tag list"
  pl_segments :: "Segment list option"
  pl_computed :: PlaylistComputedData

definition newPlaylist ::
  "PlaylistType \<Rightarrow> Tag list \<Rightarrow> PlaylistComputedData \<Rightarrow> Segment list option \<Rightarrow> Playlist" where
  "newPlaylist type tags computed segs =
     \<lparr>pl_type = type, pl_tags = tags,
      pl_segments = (case segs of Some l \<Rightarrow> Some l | None \<Rightarrow> None),
      pl_computed = computed\<rparr>"

section \<open>The tag grammar parser\<close>

text \<open>The errors of a parse: the three \<^verbatim>\<open>shaka.util.Error\<close> codes thrown by the parser
  (the invalid tag error carries the offending line), and the \<^verbatim>\<open>TypeError\<close> that
  JavaScript raises for a method call on \<^verbatim>\<open>null\<close>.\<close>

datatype error =
    HLS_PLAYLIST_HEADER_MISSING
  | HLS_INVALID_PLAYLIST_HIERARCHY
  | INVALID_HLS_TAG jsstring
  | TypeError

text \<open>\<^verbatim>\<open>word.match(/^#(EXT[^:]*)(?::(.*))?$/)\<close>: the groups 1 and 2. The name runs to the
  first colon or to the end. The dot matches no line terminator and \<^verbatim>\<open>$\<close> is the end of
  the input, so there is no match when a line terminator comes after the first colon.\<close>

definition tagBlocks :: "jsstring \<Rightarrow> (jsstring \<times> jsstring option) option" where
  "tagBlocks word =
     (if startsWith word (js ''#EXT'') then
        (let name = takeWhile (\<lambda>c. c \<noteq> ch CHR '':'') (tl word);
             rest = dropWhile (\<lambda>c. c \<noteq> ch CHR '':'') (tl word)
         in case rest of
              [] \<Rightarrow> Some (name, None)
            | _ # data \<Rightarrow>
                if list_ex isLineTerminator data then None else Some (name, Some data))
      else None)"

text \<open>
  Modelled from the spec: \<^verbatim>\<open>shaka.util.TextParser\<close> (\<^verbatim>\<open>readRegex\<close>, \<^verbatim>\<open>skipWhitespace\<close>) is
  not under src/. The grammar parser reads the rest of the line from left to right:
  \<^verbatim>\<open>readRegex\<close> matches a pattern at the current position and moves past the match, or
  returns null (also at the end of the data) and stays; \<^verbatim>\<open>skipWhitespace\<close> moves past
  spaces and tabs. The parser's state is the unread rest of the data; a successful read
  returns the groups of the match and the new rest.

  \<^verbatim>\<open>valueRegex = /^([^,=]+)(?:,|$)/g\<close>, read at the start of the data: the longest prefix
  without comma or equals sign, not empty, followed by a comma or by the end.
\<close>

definition readRegex_valueRegex :: "jsstring \<Rightarrow> (jsstring \<times> jsstring) option" where
  "readRegex_valueRegex data =
     (let v = takeWhile (\<lambda>c. c \<noteq> ch CHR '','' \<and> c \<noteq> ch CHR ''='') data;
          r = dropWhile (\<lambda>c. c \<noteq> ch CHR '','' \<and> c \<noteq> ch CHR ''='') data
      in if v = [] then None
         else (case r of
                 [] \<Rightarrow> Some (v, [])
               | c # r' \<Rightarrow> if c = ch CHR '','' then Some (v, r') else None))"

text \<open>\<^verbatim>\<open>attributeRegex = /([^=]+)=(?:"([^"]*)"|([^",]*))(?:,|$)/g\<close>: a name up to the first
  equals sign, then either a quoted string (group 2) or an unquoted one up to the next
  comma or quote (group 3), then a comma or the end. The result holds the groups 1, 2
  and 3 and the new rest.\<close>

definition readRegex_attributeRegex ::
  "jsstring \<Rightarrow> ((jsstring \<times> jsstring option \<times> jsstring option) \<times> jsstring) option" where
  "readRegex_attributeRegex data =
     (let k = takeWhile (\<lambda>c. c \<noteq> ch CHR ''='') data;
          r = dropWhile (\<lambda>c. c \<noteq> ch CHR ''='') data
      in if k = [] then None
         else (case r of
                 [] \<Rightarrow> None
               | _ # r1 \<Rightarrow>
                   (case r1 of
                      [] \<Rightarrow> Some ((k, None, Some []), [])
                    | c # r2 \<Rightarrow>
                        if c = DQUOTE then
                          (let q = takeWhile (\<lambda>c. c \<noteq> DQUOTE) r2;
                               r3 = dropWhile (\<lambda>c. c \<noteq> DQUOTE) r2
                           in case r3 of
                                [] \<Rightarrow> None
                              | _ # r4 \<Rightarrow>
                                  (case r4 of
                                     [] \<Rightarrow> Some ((k, Some q, None), [])
                                   | d # r5 \<Rightarrow>
                                       if d = ch CHR '','' then Some ((k, Some q, None), r5)
                                       else None))
                        else
                          (let u = takeWhile (\<lambda>c. c \<noteq> DQUOTE \<and> c \<noteq> ch CHR '','') r1;
                               r3 = dropWhile (\<lambda>c. c \<noteq> DQUOTE \<and> c \<noteq> ch CHR '','') r1
                           in case r3 of
                                [] \<Rightarrow> Some ((k, None, Some u), [])
                              | d # r4 \<Rightarrow>
                                  if d = ch CHR '','' then Some ((k, None, Some u), r4)
                                  else None))))"

definition skipWhitespace :: "jsstring \<Rightarrow> jsstring" where
  "skipWhitespace data = dropWhile (\<lambda>c. c = SPACE \<or> c = TAB) data"

text \<open>\<^verbatim>\<open>blockAttrs[2] || blockAttrs[3]\<close>: an empty quoted value is falsy, and group 3 is
  then \<^verbatim>\<open>undefined\<close>.\<close>

definition attrValueOf :: "jsstring option \<Rightarrow> jsstring option \<Rightarrow> jsstring option" where
  "attrValueOf g2 g3 = (case g2 of Some q \<Rightarrow> if q \<noteq> [] then Some q else g3 | None \<Rightarrow> g3)"

text \<open>The loop of \<^verbatim>\<open>parseTag\<close> over the attributes.\<close>

function parseAttributes :: "jsstring \<Rightarrow> Attribute list" where
  "parseAttributes data =
     (case readRegex_attributeRegex data of
        None \<Rightarrow> []
      | Some (blockAttrs, rest) \<Rightarrow>
          \<lparr>attr_name = fst blockAttrs,
           attr_value = attrValueOf (fst (snd blockAttrs)) (snd (snd blockAttrs))\<rparr>
          # parseAttributes (skipWhitespace rest))"
  by pat_completeness auto
termination
proof (relation "measure length")
  show "wf (measure length)" by simp
next
  fix data x2 blockAttrs rest
  assume a: "readRegex_attributeRegex data = Some x2" and x2: "(blockAttrs, rest) = x2"
  have dw: "\<And>P xs y ys. dropWhile P xs = y # ys \<Longrightarrow> length ys < length (xs :: jsstring)"
    by (metis length_dropWhile_le length_Cons less_eq_Suc_le)
  from a x2 have m: "readRegex_attributeRegex data = Some (blockAttrs, rest)" by simp
  then obtain x r1 where r: "dropWhile (\<lambda>c. c \<noteq> ch CHR ''='') data = x # r1"
    by (auto simp: readRegex_attributeRegex_def Let_def split: if_splits list.splits)
  then have l1: "length r1 < length data" by (rule dw)
  from m r have "length rest \<le> length r1"
    by (auto simp: readRegex_attributeRegex_def Let_def split: if_splits list.splits
        dest!: dw dest: less_imp_le)
  with l1 have "length rest < length data" by simp
  moreover have "length (skipWhitespace rest) \<le> length rest"
    by (simp add: skipWhitespace_def length_dropWhile_le)
  ultimately show "(skipWhitespace rest, data) \<in> measure length" by simp
qed

declare parseAttributes.simps [simp del]

text \<open>The static \<^verbatim>\<open>parseTag(id, word)\<close>.\<close>

definition parseTag :: "nat \<Rightarrow> jsstring \<Rightarrow> error + Tag" where
  "parseTag i word =
     (case tagBlocks word of
        None \<Rightarrow> Inl (INVALID_HLS_TAG word)
      | Some (name, data) \<Rightarrow>
          (case data of
             None \<Rightarrow> Inr \<lparr>tag_id = i, tag_name = name, tag_attributes = [], tag_value = None\<rparr>
           | Some d \<Rightarrow>
               if d = [] then
                 Inr \<lparr>tag_id = i, tag_name = name, tag_attributes = [], tag_value = None\<rparr>
               else
                 (let blockValue = readRegex_valueRegex d;
                      val = map_option fst blockValue;
                      rest = (case blockValue of Some (_, r) \<Rightarrow> r | None \<Rightarrow> d)
                  in Inr \<lparr>tag_id = i, tag_name = name,
                          tag_attributes = parseAttributes rest, tag_value = val\<rparr>)))"


section \<open>The manifest text parser\<close>

text \<open>The classification tables \<^verbatim>\<open>MEDIA_PLAYLIST_TAGS\<close> and \<^verbatim>\<open>SEGMENT_TAGS\<close>.\<close>

definition MEDIA_PLAYLIST_TAGS :: "jsstring list" where
  "MEDIA_PLAYLIST_TAGS =
     [js ''EXT-X-TARGETDURATION'', js ''EXT-X-MEDIA-SEQUENCE'', js ''EXT-X-DISCONTINUITY-SEQUENCE'',
      js ''EXT-X-PLAYLIST-TYPE'', js ''EXT-X-I-FRAMES-ONLY'', js ''EXT-X-ENDLIST'',
      js ''EXT-X-SERVER-CONTROL'', js ''EXT-X-SKIP'', js ''EXT-X-PART-INF'', js ''EXT-X-DATERANGE'']"

definition SEGMENT_TAGS :: "jsstring list" where
  "SEGMENT_TAGS =
     [js ''EXTINF'', js ''EXT-X-BYTERANGE'', js ''EXT-X-DISCONTINUITY'', js ''EXT-X-PROGRAM-DATE-TIME'',
      js ''EXT-X-KEY'', js ''EXT-X-DATERANGE'', js ''EXT-X-MAP'', js ''EXT-X-GAP'', js ''EXT-X-TILES'']"

text \<open>\<^verbatim>\<open>STATIC_PATTERNS.header.test(line)\<close> with \<^verbatim>\<open>header = /^#EXTM3U($|[ \t\n])/m\<close>. The
  test searches the whole string for a match. With the flag \<^verbatim>\<open>m\<close> the assertion \<^verbatim>\<open>^\<close> holds
  at the start of the string and after every line terminator, and \<^verbatim>\<open>$\<close> holds at the end
  of the string and before every line terminator. \<open>headerAt s\<close> tells whether the rest
  \<open>s\<close> of the string matches the pattern after \<^verbatim>\<open>^\<close>, and \<open>header_search b s\<close> searches the
  rest \<open>s\<close>, where \<open>b\<close> tells whether \<^verbatim>\<open>^\<close> holds at its start.\<close>

definition headerAt :: "jsstring \<Rightarrow> bool" where
  "headerAt s \<longleftrightarrow>
     startsWith s (js ''#EXTM3U'') \<and>
     (case drop 7 s of
        [] \<Rightarrow> True
      | c # _ \<Rightarrow> isLineTerminator c \<or> c = SPACE \<or> c = TAB \<or> c = LF)"

fun header_search :: "bool \<Rightarrow> jsstring \<Rightarrow> bool" where
  "header_search b [] = False"
| "header_search b (c # cs) =
     ((b \<and> headerAt (c # cs)) \<or> header_search (isLineTerminator c) cs)"

definition header_test :: "jsstring \<Rightarrow> bool" where
  "header_test line \<longleftrightarrow> header_search True line"

text \<open>
  Modelled from the spec: \<^verbatim>\<open>shaka.hls.Utils.isComment\<close> is not under src/. A comment is a
  line that begins with the marker \<^verbatim>\<open>#\<close> and is not a directive, that is, does not begin
  with \<^verbatim>\<open>#EXT\<close>.
\<close>

definition isComment :: "jsstring \<Rightarrow> bool" where
  "isComment line \<longleftrightarrow> startsWith line (js ''#'') \<and> \<not> startsWith line (js ''#EXT'')"

definition createDefaultComputed' :: SegmentComputed where
  "createDefaultComputed' =
     \<lparr>extinf = None, extinfDuration = numberOfInt 0, map_c = None, mapId = None, gap = None,
      byterange = None, discontinuity = None, keys = [], bitrate = numberOfInt 0, dateTime = None,
      tiles = None\<rparr>"

definition createDefaultSegmentsComputed' :: SegmentsComputed where
  "createDefaultSegmentsComputed' = \<lparr>count = 0, gapCount = 0, lastExtinfDuration = None\<rparr>"

text \<open>\<^verbatim>\<open>updateComputedForTag_\<close>. The duration is \<^verbatim>\<open>Number(tag.value.split(',')[0])\<close>; the call
  of \<^verbatim>\<open>split\<close> on a null value raises a TypeError.\<close>

definition updateComputedForTag' :: "SegmentComputed \<Rightarrow> Tag \<Rightarrow> error + SegmentComputed" where
  "updateComputedForTag' computed tag =
     (if tag_name tag = js ''EXTINF'' then
        (if extinf computed = None then
           (case tag_value tag of
              None \<Rightarrow> Inl TypeError
            | Some v \<Rightarrow>
                (let duration = takeWhile (\<lambda>c. c \<noteq> ch CHR '','') v
                 in Inr (computed\<lparr>extinf := Some tag, extinfDuration := Number duration\<rparr>)))
         else Inr computed)
      else if tag_name tag = js ''EXT-X-MAP'' then
        (if map_c computed = None
         then Inr (computed\<lparr>map_c := Some tag, mapId := Some (tag_id tag)\<rparr>)
         else Inr computed)
      else if tag_name tag = js ''EXT-X-GAP'' then
        (if gap computed = None then Inr (computed\<lparr>gap := Some tag\<rparr>) else Inr computed)
      else if tag_name tag = js ''EXT-X-BYTERANGE'' then
        (if byterange computed = None then Inr (computed\<lparr>byterange := Some tag\<rparr>)
         else Inr computed)
      else if tag_name tag = js ''EXT-X-DISCONTINUITY'' then
        (if discontinuity computed = None then Inr (computed\<lparr>discontinuity := Some tag\<rparr>)
         else Inr computed)
      else if tag_name tag = js ''EXT-X-KEY'' then
        Inr (computed\<lparr>keys := keys computed @ [tag]\<rparr>)
      else if tag_name tag = js ''EXT-X-PROGRAM-DATE-TIME'' then
        (if dateTime computed = None then Inr (computed\<lparr>dateTime := Some tag\<rparr>)
         else Inr computed)
      else if tag_name tag = js ''EXT-X-TILES'' then
        (if tiles computed = None then Inr (computed\<lparr>tiles := Some tag\<rparr>) else Inr computed)
      else if tag_name tag = js ''EXT-X-BITRATE'' then
        (if \<not> truthy (bitrate computed)
         then Inr (computed\<lparr>bitrate := NumberOr (tag_value tag) 0\<rparr>)
         else Inr computed)
      else Inr computed)"

definition createDefaultTagIndex' :: PlaylistComputed where
  "createDefaultTagIndex' =
     \<lparr>mediaSequence = numberOfInt 0, skippedSegments = numberOfInt 0,
      discontinuitySequence = numberOfInt (- 1),
      skipTag = None, endListTag = None, serverControlTag = None, playlistTypeTag = None,
      startTag = None, partInfTag = None, targetDurationTag = None,
      variableTags = [], dateRangeTags = [], mediaTags = [], variantTags = [], imageTags = [],
      iFrameTags = [], sessionKeyTags = [], sessionDataTags = [], contentSteeringTags = []\<rparr>"

text \<open>\<^verbatim>\<open>updateTagIndexForTag_\<close>.\<close>

definition updateTagIndexForTag' :: "PlaylistComputed \<Rightarrow> Tag \<Rightarrow> PlaylistComputed" where
  "updateTagIndexForTag' index tag =
     (if tag_name tag = js ''EXT-X-MEDIA-SEQUENCE'' then
        index\<lparr>mediaSequence := NumberOr (tag_value tag) 0\<rparr>
      else if tag_name tag = js ''EXT-X-SKIP'' then
        (let skipped = getAttributeValue tag (js ''SKIPPED-SEGMENTS'')
         in index\<lparr>skipTag := Some tag,
                  skippedSegments :=
                    (case skipped of
                       Some s \<Rightarrow> if s \<noteq> [] then Number s else numberOfInt 0
                     | None \<Rightarrow> numberOfInt 0)\<rparr>)
      else if tag_name tag = js ''EXT-X-DEFINE'' then
        index\<lparr>variableTags := variableTags index @ [tag]\<rparr>
      else if tag_name tag = js ''EXT-X-ENDLIST'' then
        (if endListTag index = None then index\<lparr>endListTag := Some tag\<rparr> else index)
      else if tag_name tag = js ''EXT-X-SERVER-CONTROL'' then
        (if serverControlTag index = None then index\<lparr>serverControlTag := Some tag\<rparr> else index)
      else if tag_name tag = js ''EXT-X-PLAYLIST-TYPE'' then
        (if playlistTypeTag index = None then index\<lparr>playlistTypeTag := Some tag\<rparr> else index)
      else if tag_name tag = js ''EXT-X-START'' then
        (if startTag index = None then index\<lparr>startTag := Some tag\<rparr> else index)
      else if tag_name tag = js ''EXT-X-PART-INF'' then
        (if partInfTag index = None then index\<lparr>partInfTag := Some tag\<rparr> else index)
      else if tag_name tag = js ''EXT-X-TARGETDURATION'' then
        (if targetDurationTag index = None then index\<lparr>targetDurationTag := Some tag\<rparr>
         else index)
      else if tag_name tag = js ''EXT-X-DATERANGE'' then
        index\<lparr>dateRangeTags := dateRangeTags index @ [tag]\<rparr>
      else if tag_name tag = js ''EXT-X-DISCONTINUITY-SEQUENCE'' then
        index\<lparr>discontinuitySequence := NumberOr (tag_value tag) (- 1)\<rparr>
      else if tag_name tag = js ''EXT-X-MEDIA'' then
        index\<lparr>mediaTags := mediaTags index @ [tag]\<rparr>
      else if tag_name tag = js ''EXT-X-STREAM-INF'' then
        index\<lparr>variantTags := variantTags index @ [tag]\<rparr>
      else if tag_name tag = js ''EXT-X-IMAGE-STREAM-INF'' then
        index\<lparr>imageTags := imageTags index @ [tag]\<rparr>
      else if tag_name tag = js ''EXT-X-I-FRAME-STREAM-INF'' then
        index\<lparr>iFrameTags := iFrameTags index @ [tag]\<rparr>
      else if tag_name tag = js ''EXT-X-SESSION-KEY'' then
        index\<lparr>sessionKeyTags := sessionKeyTags index @ [tag]\<rparr>
      else if tag_name tag = js ''EXT-X-SESSION-DATA'' then
        index\<lparr>sessionDataTags := sessionDataTags index @ [tag]\<rparr>
      else if tag_name tag = js ''EXT-X-CONTENT-STEERING'' then
        index\<lparr>contentSteeringTags := contentSteeringTags index @ [tag]\<rparr>
      else index)"

subsection \<open>Segment mode\<close>

text \<open>
  The local variables of \<^verbatim>\<open>parseSegments_\<close>, with the playlist tag list and the tag index
  that it extends for its caller, and the id counter \<^verbatim>\<open>globalId_\<close> of the parser.
  The source keeps the segments in a pre-sized array with a fill count
  (\<^verbatim>\<open>segments\<close>, \<^verbatim>\<open>segmentIndex\<close>) and trims it at the end; \<open>s_segments\<close> is the list of the
  entries filled so far, and \<^verbatim>\<open>segmentIndex\<close> is its length.
\<close>

record SegmentsState =
  s_segments :: "Segment list"
  s_segmentTags :: "Tag list"
  s_partialSegmentTags :: "Tag list"
  s_currentMapTag :: "Tag option"
  s_gapCount :: nat
  s_lastExtinfDuration :: "number option"
  s_computed :: SegmentComputed
  s_playlistTags :: "Tag list"
  s_tagIndex :: PlaylistComputed
  s_globalId :: nat

text \<open>The body of the loop of \<^verbatim>\<open>parseSegments_\<close> for one line.\<close>

definition segmentsStep :: "SegmentsState \<Rightarrow> jsstring \<Rightarrow> error + SegmentsState" where
  "segmentsStep st line =
     (if startsWith line (js ''#EXT'') then
        (case parseTag (s_globalId st) line of
           Inl e \<Rightarrow> Inl e
         | Inr tag \<Rightarrow>
             (let st = st\<lparr>s_globalId := s_globalId st + 1\<rparr>
              in if tag_name tag \<in> set MEDIA_PLAYLIST_TAGS then
                   Inr (st\<lparr>s_playlistTags := s_playlistTags st @ [tag],
                           s_tagIndex := updateTagIndexForTag' (s_tagIndex st) tag\<rparr>)
                 else
                   (let (st, tag) =
                          (if tag_name tag = js ''EXT-X-MAP'' then
                             (st\<lparr>s_currentMapTag := Some tag\<rparr>, tag)
                           else if tag_name tag = js ''EXT-X-PART'' then
                             (st\<lparr>s_partialSegmentTags := s_partialSegmentTags st @ [tag]\<rparr>, tag)
                           else if tag_name tag = js ''EXT-X-PRELOAD-HINT'' then
                             (if getAttributeValue tag (js ''TYPE'') = Some (js ''PART'') then
                                (st\<lparr>s_partialSegmentTags := s_partialSegmentTags st @ [tag]\<rparr>,
                                 tag)
                              else if getAttributeValue tag (js ''TYPE'') = Some (js ''MAP'') then
                                (let tag = setName tag (js ''EXT-X-MAP'')
                                 in (st\<lparr>s_currentMapTag := Some tag\<rparr>, tag))
                              else (st, tag))
                           else (st\<lparr>s_segmentTags := s_segmentTags st @ [tag]\<rparr>, tag))
                    in case updateComputedForTag' (s_computed st) tag of
                         Inl e \<Rightarrow> Inl e
                       | Inr computed \<Rightarrow> Inr (st\<lparr>s_computed := computed\<rparr>))))
      else if isComment line then Inr st
      else
        (let verbatimSegmentUri = trim line;
             segmentTags = (case s_currentMapTag st of
                              Some m \<Rightarrow> s_segmentTags st @ [m]
                            | None \<Rightarrow> s_segmentTags st);
             computed = s_computed st;
             lastExtinfDuration = (if extinf computed \<noteq> None then Some (extinfDuration computed)
                                   else s_lastExtinfDuration st);
             gapCount = (if gap computed \<noteq> None then s_gapCount st + 1 else s_gapCount st);
             computed = (case s_currentMapTag st of
                           Some m \<Rightarrow>
                             if map_c computed = None
                             then computed\<lparr>map_c := Some m, mapId := Some (tag_id m)\<rparr>
                             else computed
                         | None \<Rightarrow> computed);
             segment = newSegment verbatimSegmentUri segmentTags computed (s_partialSegmentTags st)
         in Inr (st\<lparr>s_segments := s_segments st @ [segment],
                    s_segmentTags := [], s_partialSegmentTags := [],
                    s_lastExtinfDuration := lastExtinfDuration, s_gapCount := gapCount,
                    s_computed := createDefaultComputed'\<rparr>)))"

fun segmentsLoop :: "jsstring list \<Rightarrow> SegmentsState \<Rightarrow> error + SegmentsState" where
  "segmentsLoop [] st = Inr st"
| "segmentsLoop (line # rest) st =
     (case segmentsStep st line of Inl e \<Rightarrow> Inl e | Inr st' \<Rightarrow> segmentsLoop rest st')"

text \<open>The loop \<^verbatim>\<open>for (const tag of segmentTags) updateComputedForTag_(computed, tag)\<close>.\<close>

fun updateComputedForTags :: "SegmentComputed \<Rightarrow> Tag list \<Rightarrow> error + SegmentComputed" where
  "updateComputedForTags computed [] = Inr computed"
| "updateComputedForTags computed (tag # tags) =
     (case updateComputedForTag' computed tag of
        Inl e \<Rightarrow> Inl e
      | Inr computed' \<Rightarrow> updateComputedForTags computed' tags)"

text \<open>What \<^verbatim>\<open>parseSegments_\<close> does after its loop: the segment for dangling partial
  segments.\<close>

definition finishSegments :: "SegmentsState \<Rightarrow> error + SegmentsState" where
  "finishSegments st =
     (if s_partialSegmentTags st \<noteq> [] then
        (let segmentTags = (case s_currentMapTag st of
                              Some m \<Rightarrow> s_segmentTags st @ [m]
                            | None \<Rightarrow> s_segmentTags st)
         in case updateComputedForTags createDefaultComputed' segmentTags of
              Inl e \<Rightarrow> Inl e
            | Inr computed \<Rightarrow>
                Inr (st\<lparr>s_segmentTags := segmentTags,
                        s_segments := s_segments st
                          @ [newSegment [] segmentTags computed (s_partialSegmentTags st)]\<rparr>))
      else Inr st)"

text \<open>\<^verbatim>\<open>parseSegments_(lines, startIndex, playlistTags, tagIndex)\<close>; the first argument is
  the lines from \<^verbatim>\<open>startIndex\<close> on. The final state holds the result: the segments, the
  counters of the analysis, and the playlist tags and tag index as the caller sees them
  afterwards.\<close>

definition parseSegments' ::
  "jsstring list \<Rightarrow> Tag list \<Rightarrow> PlaylistComputed \<Rightarrow> nat \<Rightarrow> error + SegmentsState" where
  "parseSegments' lines playlistTags tagIndex globalId =
     (case segmentsLoop lines
             \<lparr>s_segments = [], s_segmentTags = [], s_partialSegmentTags = [],
              s_currentMapTag = None, s_gapCount = 0, s_lastExtinfDuration = None,
              s_computed = createDefaultComputed', s_playlistTags = playlistTags,
              s_tagIndex = tagIndex, s_globalId = globalId\<rparr> of
        Inl e \<Rightarrow> Inl e
      | Inr st \<Rightarrow> finishSegments st)"

definition analysis :: "SegmentsState \<Rightarrow> SegmentsComputed" where
  "analysis st =
     \<lparr>count = length (s_segments st), gapCount = s_gapCount st,
      lastExtinfDuration = s_lastExtinfDuration st\<rparr>"

subsection \<open>Playlist scanning\<close>

text \<open>The local variables of the loop of \<^verbatim>\<open>parsePlaylist\<close>, and the id counter.\<close>

record ScanState =
  p_playlistType :: PlaylistType
  p_typeDetected :: bool
  p_tags :: "Tag list"
  p_tagIndex :: PlaylistComputed
  p_skip :: bool
  p_globalId :: nat

text \<open>The type detection on the first relevant tag.\<close>

definition detectType :: "ScanState \<Rightarrow> Tag \<Rightarrow> ScanState" where
  "detectType st tag =
     (if \<not> p_typeDetected st then
        (if tag_name tag \<in> set MEDIA_PLAYLIST_TAGS then
           st\<lparr>p_playlistType := MEDIA, p_typeDetected := True\<rparr>
         else if tag_name tag = js ''EXT-X-STREAM-INF'' \<or> tag_name tag = js ''EXT-X-MEDIA'' then
           st\<lparr>p_typeDetected := True\<rparr>
         else if tag_name tag \<in> set SEGMENT_TAGS then
           st\<lparr>p_playlistType := MEDIA, p_typeDetected := True\<rparr>
         else st)
      else st)"

text \<open>The loop of \<^verbatim>\<open>parsePlaylist\<close> over the lines from index \<^verbatim>\<open>i\<close> on. The tag of a stream
  variant receives the next line as its URI attribute (\<^verbatim>\<open>undefined\<close> on the last line);
  the source adds it to the tag object after storing the object, so the stored tag has
  it.\<close>

fun scanLines :: "jsstring list \<Rightarrow> ScanState \<Rightarrow> error + Playlist" where
  "scanLines [] st =
     Inr (newPlaylist (p_playlistType st) (p_tags st)
            \<lparr>playlist = p_tagIndex st, segments = createDefaultSegmentsComputed'\<rparr> (Some []))"
| "scanLines (line # rest) st =
     (if isComment line \<or> p_skip st then scanLines rest (st\<lparr>p_skip := False\<rparr>)
      else
        (case parseTag (p_globalId st) line of
           Inl e \<Rightarrow> Inl e
         | Inr tag \<Rightarrow>
             (let st = detectType (st\<lparr>p_globalId := p_globalId st + 1\<rparr>) tag
              in if tag_name tag \<in> set SEGMENT_TAGS then
                   (if p_playlistType st \<noteq> MEDIA then Inl HLS_INVALID_PLAYLIST_HIERARCHY
                    else
                      (case parseSegments' (line # rest) (p_tags st) (p_tagIndex st)
                              (p_globalId st) of
                         Inl e \<Rightarrow> Inl e
                       | Inr s \<Rightarrow>
                           Inr (newPlaylist (p_playlistType st) (s_playlistTags s)
                                  \<lparr>playlist = s_tagIndex s, segments = analysis s\<rparr>
                                  (Some (s_segments s)))))
                 else
                   (let next = (case rest of [] \<Rightarrow> None | n # _ \<Rightarrow> Some n);
                        tag = (if tag_name tag = js ''EXT-X-STREAM-INF''
                               then addAttribute tag \<lparr>attr_name = js ''URI'', attr_value = next\<rparr>
                               else tag)
                    in scanLines rest
                         (st\<lparr>p_tags := p_tags st @ [tag],
                             p_tagIndex := updateTagIndexForTag' (p_tagIndex st) tag,
                             p_skip := (tag_name tag = js ''EXT-X-STREAM-INF'')\<rparr>)))))"

text \<open>The lines of the input: newlines normalised, the text trimmed and split.\<close>

definition linesOf :: "jsstring \<Rightarrow> jsstring list" where
  "linesOf str = splitNewlines (trim (normalizeNewlines str))"

text \<open>\<^verbatim>\<open>parsePlaylist(data)\<close> of a parser whose id counter is \<open>globalId\<close>, on the decoded
  text. \<^verbatim>\<open>lines[0]\<close> always exists.\<close>

definition parsePlaylist :: "nat \<Rightarrow> jsstring \<Rightarrow> error + Playlist" where
  "parsePlaylist globalId str =
     (let lines = linesOf str
      in if \<not> header_test (case lines of [] \<Rightarrow> js ''undefined'' | l # _ \<Rightarrow> l)
         then Inl HLS_PLAYLIST_HEADER_MISSING
         else scanLines lines
                \<lparr>p_playlistType = MASTER, p_typeDetected = False, p_tags = [],
                 p_tagIndex = createDefaultTagIndex', p_skip = True, p_globalId = globalId\<rparr>)"

section \<open>Notions used in the properties\<close>

text \<open>The name that the tag pattern gives a line, if the line is a directive.\<close>

definition tagName :: "jsstring \<Rightarrow> jsstring option" where
  "tagName line = map_option fst (tagBlocks line)"

text \<open>
  The lines of the scanning phase by their role (spec, section 4.2): a comment is ignored,
  the line after a stream variant is consumed as its URI, and every other line is handed to
  the tag parser. \<open>handed skip ls\<close> lists the lines of \<open>ls\<close> that are handed to the tag parser
  when the scan runs over all of \<open>ls\<close>, where \<open>skip\<close> tells whether the first line is to be
  skipped; \<open>skipAfter skip ls\<close> tells whether the line after \<open>ls\<close> is.
\<close>

fun handed :: "bool \<Rightarrow> jsstring list \<Rightarrow> jsstring list" where
  "handed skip [] = []"
| "handed skip (l # ls) =
     (if isComment l \<or> skip then handed False ls
      else l # handed (tagName l = Some (js ''EXT-X-STREAM-INF'')) ls)"

fun skipAfter :: "bool \<Rightarrow> jsstring list \<Rightarrow> bool" where
  "skipAfter skip [] = skip"
| "skipAfter skip (l # ls) =
     skipAfter (\<not> (isComment l \<or> skip) \<and> tagName l = Some (js ''EXT-X-STREAM-INF'')) ls"

text \<open>The classes of directive lines: a well-formed directive that is not segment-only, a
  segment-only directive, a declaration of a stream variant or of alternative media, and a
  directive that says nothing about the type of the playlist.\<close>

definition nonSegmentDirective :: "jsstring \<Rightarrow> bool" where
  "nonSegmentDirective line \<longleftrightarrow>
     (case tagName line of None \<Rightarrow> False | Some n \<Rightarrow> n \<notin> set SEGMENT_TAGS)"

definition segmentDirective :: "jsstring \<Rightarrow> bool" where
  "segmentDirective line \<longleftrightarrow>
     (case tagName line of None \<Rightarrow> False | Some n \<Rightarrow> n \<in> set SEGMENT_TAGS)"

definition masterDeclaration :: "jsstring \<Rightarrow> bool" where
  "masterDeclaration line \<longleftrightarrow>
     tagName line = Some (js ''EXT-X-STREAM-INF'') \<or> tagName line = Some (js ''EXT-X-MEDIA'')"

definition neutralDirective :: "jsstring \<Rightarrow> bool" where
  "neutralDirective line \<longleftrightarrow>
     (case tagName line of
        None \<Rightarrow> False
      | Some n \<Rightarrow> n \<notin> set SEGMENT_TAGS \<and> n \<notin> set MEDIA_PLAYLIST_TAGS
                  \<and> n \<noteq> js ''EXT-X-STREAM-INF'' \<and> n \<noteq> js ''EXT-X-MEDIA'')"

text \<open>The lines of segment mode: the lines from the first segment-only directive on that
  the scan hands to the tag parser, and no lines when the scan hands no such directive to
  the tag parser.\<close>

fun segmentLines :: "bool \<Rightarrow> jsstring list \<Rightarrow> jsstring list" where
  "segmentLines skip [] = []"
| "segmentLines skip (l # ls) =
     (if isComment l \<or> skip then segmentLines False ls
      else if segmentDirective l then l # ls
      else segmentLines (tagName l = Some (js ''EXT-X-STREAM-INF'')) ls)"

text \<open>Whether a scan of these handed lines, from the given state of the type detection,
  meets a segment-only directive while the type is not MEDIA (an auxiliary function of the
  proofs).\<close>

fun hierarchyViolation :: "bool \<Rightarrow> PlaylistType \<Rightarrow> jsstring list \<Rightarrow> bool" where
  "hierarchyViolation det ty [] = False"
| "hierarchyViolation det ty (x # xs) =
     (case tagName x of
        None \<Rightarrow> False
      | Some n \<Rightarrow>
          (let ty' = (if \<not> det then
                        (if n \<in> set MEDIA_PLAYLIST_TAGS then MEDIA
                         else if n = js ''EXT-X-STREAM-INF'' \<or> n = js ''EXT-X-MEDIA'' then ty
                         else if n \<in> set SEGMENT_TAGS then MEDIA
                         else ty)
                      else ty);
               det' = (det \<or> n \<in> set MEDIA_PLAYLIST_TAGS \<or> n = js ''EXT-X-STREAM-INF''
                           \<or> n = js ''EXT-X-MEDIA'' \<or> n \<in> set SEGMENT_TAGS)
           in if n \<in> set SEGMENT_TAGS then ty' \<noteq> MEDIA else hierarchyViolation det' ty' xs))"

text \<open>
  The lines of segment mode by their role (spec, section 4.3): a line that begins with
  \<^verbatim>\<open>#EXT\<close> is a directive, a comment is ignored, and every other line is a URI line, which
  ends a segment. \<open>directiveTags g ls\<close> lists the tags of the directive lines of \<open>ls\<close>, when
  the id counter starts at \<open>g\<close>: each directive line takes the next id.
\<close>

definition isUriLine :: "jsstring \<Rightarrow> bool" where
  "isUriLine line \<longleftrightarrow> \<not> startsWith line (js ''#EXT'') \<and> \<not> isComment line"

definition numDirectives :: "jsstring list \<Rightarrow> nat" where
  "numDirectives ls = length (filter (\<lambda>l. startsWith l (js ''#EXT'')) ls)"

fun directiveTags :: "nat \<Rightarrow> jsstring list \<Rightarrow> Tag list" where
  "directiveTags g [] = []"
| "directiveTags g (l # ls) =
     (if startsWith l (js ''#EXT'')
      then (case parseTag g l of Inr t \<Rightarrow> [t] | Inl _ \<Rightarrow> []) @ directiveTags (Suc g) ls
      else directiveTags g ls)"

text \<open>The kinds of tags in segment mode: a partial-segment tag (\<^verbatim>\<open>EXT-X-PART\<close>, or a preload
  hint of type \<^verbatim>\<open>PART\<close>); an initialization-segment tag, as it is carried (\<^verbatim>\<open>EXT-X-MAP\<close>, or
  a preload hint of type \<^verbatim>\<open>MAP\<close> renamed to \<^verbatim>\<open>EXT-X-MAP\<close>); and a tag that belongs to the tag
  list of the pending segment (any other tag that is not media-playlist-only, except a
  preload hint of another type).\<close>

definition isPartialTag :: "Tag \<Rightarrow> bool" where
  "isPartialTag t \<longleftrightarrow>
     tag_name t = js ''EXT-X-PART''
     \<or> (tag_name t = js ''EXT-X-PRELOAD-HINT'' \<and> getAttributeValue t (js ''TYPE'') = Some (js ''PART''))"

definition initSegmentTag :: "Tag \<Rightarrow> Tag option" where
  "initSegmentTag t =
     (if tag_name t = js ''EXT-X-MAP'' then Some t
      else if tag_name t = js ''EXT-X-PRELOAD-HINT'' \<and> getAttributeValue t (js ''TYPE'') = Some (js ''MAP'')
        then Some (setName t (js ''EXT-X-MAP''))
      else None)"

definition isSegmentScoped :: "Tag \<Rightarrow> bool" where
  "isSegmentScoped t \<longleftrightarrow>
     tag_name t \<notin> set MEDIA_PLAYLIST_TAGS \<and> tag_name t \<noteq> js ''EXT-X-MAP''
     \<and> tag_name t \<noteq> js ''EXT-X-PART'' \<and> tag_name t \<noteq> js ''EXT-X-PRELOAD-HINT''"

definition initTags :: "nat \<Rightarrow> jsstring list \<Rightarrow> Tag list" where
  "initTags g ls = List.map_filter initSegmentTag (directiveTags g ls)"

text \<open>The last element of a list, or a default; the initialization-segment tag that is
  carried after the lines \<open>ls\<close> of segment mode is the last one among their tags.\<close>

fun lastOr :: "'a option \<Rightarrow> 'a list \<Rightarrow> 'a option" where
  "lastOr a [] = a"
| "lastOr a (x # xs) = lastOr (Some x) xs"

definition carriedMap :: "nat \<Rightarrow> jsstring list \<Rightarrow> Tag option" where
  "carriedMap g ls = lastOr None (initTags g ls)"

text \<open>A document splits into a playlist part, which the scan reads to its end without
  meeting a segment-only directive, and a segment part, which begins with a segment-only
  directive that the scan hands to the tag parser.\<close>

definition playlistPart :: "jsstring list \<Rightarrow> bool" where
  "playlistPart ls \<longleftrightarrow> list_all nonSegmentDirective (handed True ls) \<and> \<not> skipAfter True ls"

definition segmentPart :: "jsstring list \<Rightarrow> bool" where
  "segmentPart ls \<longleftrightarrow> (case ls of [] \<Rightarrow> False | l # _ \<Rightarrow> segmentDirective l)"

section \<open>Example documents\<close>

text \<open>The playlist of the unit test ``counts both regular and partial segment gaps'':
  three segments, the first and the third with a partial segment that has \<^verbatim>\<open>GAP=YES\<close>, the
  second with \<^verbatim>\<open>EXT-X-GAP\<close>.\<close>

definition doc_mixed_gaps :: jsstring where
  \<open>doc_mixed_gaps = join [LF]
     [js ''#EXTM3U'', js ''#EXT-X-VERSION:6'', js ''#EXT-X-TARGETDURATION:6'',
      js ''#EXT-X-PART-INF:PART-TARGET=2'',
      js ''#EXTINF:6,'',
      js ''#EXT-X-PART:DURATION=2,URI="part1.mp4",GAP=YES'',
      js ''#EXT-X-PART:DURATION=2,URI="part2.mp4"'',
      js ''#EXT-X-PART:DURATION=2,URI="part3.mp4"'',
      js ''segment1.mp4'',
      js ''#EXTINF:6,'',
      js ''#EXT-X-GAP'',
      js ''segment2.mp4'',
      js ''#EXTINF:6,'',
      js ''#EXT-X-PART:DURATION=2,URI="part4.mp4"'',
      js ''#EXT-X-PART:DURATION=2,URI="part5.mp4",GAP=YES'',
      js ''#EXT-X-PART:DURATION=2,URI="part6.mp4"'',
      js ''segment3.mp4'', []]\<close>

text \<open>A playlist with two skip tags.\<close>

definition doc_two_skips :: jsstring where
  "doc_two_skips = join [LF]
     [js ''#EXTM3U'', js ''#EXT-X-SKIP:SKIPPED-SEGMENTS=1'', js ''#EXT-X-SKIP:SKIPPED-SEGMENTS=2'']"

text \<open>A master playlist (from the unit tests), a playlist whose header line goes on after
  the header token, a playlist whose first line holds the header token after a line
  separator, and a line that is no directive after the header.\<close>

definition doc_master :: jsstring where
  "doc_master = join [LF] [js ''#EXTM3U'', js ''#EXT-X-MEDIA:TYPE=CLOSED-CAPTIONS'']"

definition doc_header_junk :: jsstring where
  "doc_header_junk = join [LF] [js ''#EXTM3U junk'', js ''#EXT-X-TARGETDURATION:6'']"

definition doc_header_separator :: jsstring where
  "doc_header_separator =
     join [LF] [js ''x'' @ [LS] @ js ''#EXTM3U v1'', js ''#EXT-X-TARGETDURATION:6'']"

definition doc_invalid_tag :: jsstring where
  "doc_invalid_tag = join [LF] [js ''#EXTM3U'', js ''invalid tag'']"

definition doc_master_with_segment :: jsstring where
  "doc_master_with_segment =
     join [LF] [js ''#EXTM3U'', js ''#EXT-X-MEDIA:TYPE=AUDIO'', js ''#EXTINF:6.00600'']"

text \<open>A media playlist that begins with a segment-only directive (after the unit test
  ``handles manifests with a segment tag before a playlist tag'').\<close>

definition doc_key_first :: jsstring where
  \<open>doc_key_first = join [LF]
     [js ''#EXTM3U'', js ''#EXT-X-KEY:METHOD="AES-128",URI="http://key.com",IV="123"'',
      js ''#EXT-X-TARGETDURATION:6'', js ''#EXTINF:6'', js ''https://test/test.mp4'', []]\<close>


text \<open>A media sequence number that is not numeric.\<close>

definition doc_nan :: jsstring where
  "doc_nan = join [LF] [js ''#EXTM3U'', js ''#EXT-X-MEDIA-SEQUENCE:abc'']"

text \<open>The playlist of the unit test ``parses segments with partial segments'', which ends
  with a partial segment; a playlist that ends with a partial segment and has no
  segment-only directive; and a playlist with two map tags before its first segment and
  a second segment after it.\<close>

definition doc_dangling_parts :: jsstring where
  \<open>doc_dangling_parts = join [LF]
     [js ''#EXTM3U'', js ''#EXT-X-TARGETDURATION:6'', js ''#EXT-X-MAP:URI="init.mp4"'', js ''#EXTINF:5'',
      js ''uri'',
      js ''#EXT-X-PART:DURATION=1,URI="uri2.1"'', js ''#EXT-X-PART:DURATION=1,URI="uri2.2"'',
      js ''#EXTINF:2'', js ''uri2'',
      js ''#EXT-X-PART:DURATION=1,URI="uri3.1"'', []]\<close>

definition doc_part_only :: jsstring where
  \<open>doc_part_only = join [LF]
     [js ''#EXTM3U'', js ''#EXT-X-TARGETDURATION:6'', js ''#EXT-X-PART:DURATION=1,URI="p1"'']\<close>


section \<open>Properties\<close>

subsection \<open>String literals\<close>

lemma js_eq_iff [simp]: "js a = js b \<longleftrightarrow> a = b"
  by (simp add: js_def inj_map_eq_map [OF inj_of_char])

lemma length_js [simp]: "length (js s) = length s"
  by (simp add: js_def)

lemma js_Nil [simp]: "js [] = []"
  by (simp add: js_def)

lemma js_eq_Nil [simp]: "js s = [] \<longleftrightarrow> s = []" "[] = js s \<longleftrightarrow> s = []"
  by (auto simp: js_def)

subsection \<open>The classes of directive lines\<close>

lemma nonSegmentDirective_iff:
  "nonSegmentDirective line \<longleftrightarrow> (\<exists>n. tagName line = Some n \<and> n \<notin> set SEGMENT_TAGS)"
  by (simp add: nonSegmentDirective_def split: option.splits)

lemma segmentDirective_iff:
  "segmentDirective line \<longleftrightarrow> (\<exists>n. tagName line = Some n \<and> n \<in> set SEGMENT_TAGS)"
  by (simp add: segmentDirective_def split: option.splits)

lemma neutralDirective_iff:
  "neutralDirective line \<longleftrightarrow>
     (\<exists>n. tagName line = Some n \<and> n \<notin> set SEGMENT_TAGS \<and> n \<notin> set MEDIA_PLAYLIST_TAGS
          \<and> n \<noteq> js ''EXT-X-STREAM-INF'' \<and> n \<noteq> js ''EXT-X-MEDIA'')"
  by (simp add: neutralDirective_def split: option.splits)

subsection \<open>Errors of the parser\<close>

lemma parseTag_error: "parseTag i w = Inl e \<Longrightarrow> e = INVALID_HLS_TAG w"
  by (auto simp: parseTag_def Let_def split: option.splits if_splits prod.splits)

lemma parseTag_None: "tagName w = None \<Longrightarrow> parseTag i w = Inl (INVALID_HLS_TAG w)"
  by (auto simp: parseTag_def tagName_def split: option.splits)

lemma parseTag_Some:
  "tagName w = Some n \<Longrightarrow> \<exists>t. parseTag i w = Inr t \<and> tag_name t = n \<and> tag_id t = i"
  by (auto simp: parseTag_def tagName_def Let_def split: option.splits)

lemma parseTag_Inr: "parseTag i w = Inr t \<Longrightarrow> tagName w = Some (tag_name t) \<and> tag_id t = i"
  by (auto simp: parseTag_def tagName_def Let_def split: option.splits if_splits)

lemma updateComputedForTag'_error: "updateComputedForTag' c t = Inl e \<Longrightarrow> e = TypeError"
  by (auto simp: updateComputedForTag'_def Let_def split: if_splits option.splits)

lemma segmentsStep_error:
  "segmentsStep st l = Inl e \<Longrightarrow> e = TypeError \<or> e = INVALID_HLS_TAG l"
  by (auto simp: segmentsStep_def Let_def split: if_splits sum.splits prod.splits
      dest: parseTag_error updateComputedForTag'_error)

lemma segmentsLoop_error:
  "segmentsLoop ls st = Inl e \<Longrightarrow> e = TypeError \<or> (\<exists>l. e = INVALID_HLS_TAG l)"
  by (induction ls arbitrary: st) (auto split: sum.splits dest: segmentsStep_error)

lemma updateComputedForTags_error: "updateComputedForTags c ts = Inl e \<Longrightarrow> e = TypeError"
  by (induction ts arbitrary: c) (auto split: sum.splits dest: updateComputedForTag'_error)

lemma parseSegments'_error:
  "parseSegments' ls tags idx g = Inl e \<Longrightarrow> e = TypeError \<or> (\<exists>l. e = INVALID_HLS_TAG l)"
  by (auto simp: parseSegments'_def finishSegments_def Let_def split: sum.splits if_splits
      dest: segmentsLoop_error updateComputedForTags_error)

lemma scanLines_no_header_error: "scanLines ls st \<noteq> Inl HLS_PLAYLIST_HEADER_MISSING"
proof (induction ls arbitrary: st)
  case Nil
  show ?case by simp
next
  case (Cons l ls)
  show ?case
    using Cons.IH
    by (auto simp: Let_def split: sum.splits dest: parseTag_error parseSegments'_error)
qed

subsection \<open>The lines of the input\<close>

lemma splitNewlines_nonempty: "splitNewlines s \<noteq> []"
proof (induction s)
  case Nil
  show ?case by simp
next
  case (Cons c cs)
  then show ?case
    unfolding splitNewlines.simps(2) [of c cs]
    by (auto split: list.splits simp del: splitNewlines.simps)
qed

lemma splitNewlines_chars:
  "l \<in> set (splitNewlines s) \<Longrightarrow> set l \<subseteq> set s - {LF}"
proof (induction s arbitrary: l)
  case Nil
  then show ?case by simp
next
  case (Cons c cs)
  obtain l' ls' where sp: "splitNewlines cs = l' # ls'"
    using splitNewlines_nonempty by (cases "splitNewlines cs") auto
  have ih: "\<And>x. x \<in> set (l' # ls') \<Longrightarrow> set x \<subseteq> set cs - {LF}"
    using Cons.IH sp by simp
  from Cons.prems have "l = [] \<or> l \<in> set (l' # ls') \<or> (c \<noteq> LF \<and> l = c # l')"
    unfolding splitNewlines.simps(2) [of c cs] sp
    by (auto split: list.splits if_splits simp del: splitNewlines.simps)
  then show ?case using ih [of l'] ih [of l] by auto
qed

lemma normalizeNewlines_no_CR: "CR \<notin> set (normalizeNewlines s)"
  by (induction s rule: normalizeNewlines.induct) auto

lemma set_trim: "set (trim s) \<subseteq> set s"
proof
  fix x assume "x \<in> set (trim s)"
  then have "x \<in> set (dropWhile isWhiteSpace (rev (dropWhile isWhiteSpace s)))"
    by (simp add: trim_def)
  then have "x \<in> set (rev (dropWhile isWhiteSpace s))" by (rule set_dropWhileD)
  then have "x \<in> set (dropWhile isWhiteSpace s)" by simp
  then show "x \<in> set s" by (rule set_dropWhileD)
qed

lemma linesOf_nonempty: "linesOf str \<noteq> []"
  by (simp add: linesOf_def splitNewlines_nonempty)

lemma linesOf_chars: "l \<in> set (linesOf str) \<Longrightarrow> LF \<notin> set l \<and> CR \<notin> set l"
  using splitNewlines_chars [of l "trim (normalizeNewlines str)"] set_trim [of "normalizeNewlines str"]
    normalizeNewlines_no_CR [of str]
  by (auto simp: linesOf_def)

lemma startsWith_iff: "startsWith s p \<longleftrightarrow> (\<exists>r. s = p @ r)"
  unfolding startsWith_def by (metis append_eq_conv_conj append_take_drop_id)

lemma linesOf_terminators:
  assumes "l \<in> set (linesOf str)" and "c \<in> set l"
  shows "isLineTerminator c \<longleftrightarrow> c = LS \<or> c = PS"
  using linesOf_chars [OF assms(1)] assms(2) by (auto simp: isLineTerminator_def)

lemma headerAt_iff:
  "headerAt s \<longleftrightarrow>
     (\<exists>post. s = js ''#EXTM3U'' @ post
        \<and> (post = [] \<or> isLineTerminator (hd post) \<or> hd post = SPACE \<or> hd post = TAB))"
proof
  assume h: "headerAt s"
  then obtain r where s: "s = js ''#EXTM3U'' @ r"
    unfolding headerAt_def startsWith_iff by blast
  then have d: "drop 7 s = r" by simp
  with h have "r = [] \<or> isLineTerminator (hd r) \<or> hd r = SPACE \<or> hd r = TAB"
    unfolding headerAt_def by (cases r) (auto simp: isLineTerminator_def)
  with s show "\<exists>post. s = js ''#EXTM3U'' @ post
        \<and> (post = [] \<or> isLineTerminator (hd post) \<or> hd post = SPACE \<or> hd post = TAB)"
    by blast
next
  assume "\<exists>post. s = js ''#EXTM3U'' @ post
        \<and> (post = [] \<or> isLineTerminator (hd post) \<or> hd post = SPACE \<or> hd post = TAB)"
  then obtain r where s: "s = js ''#EXTM3U'' @ r"
    and r: "r = [] \<or> isLineTerminator (hd r) \<or> hd r = SPACE \<or> hd r = TAB"
    by blast
  from s have d: "drop 7 s = r" by simp
  from s have "startsWith s (js ''#EXTM3U'')" unfolding startsWith_iff by blast
  with d r show "headerAt s"
    unfolding headerAt_def by (cases r) auto
qed

lemma header_search_iff:
  "header_search b s \<longleftrightarrow>
     (\<exists>pre post. s = pre @ js ''#EXTM3U'' @ post
        \<and> (if pre = [] then b else isLineTerminator (last pre))
        \<and> (post = [] \<or> isLineTerminator (hd post) \<or> hd post = SPACE \<or> hd post = TAB))"
  (is "_ \<longleftrightarrow> ?R b s")
proof (induction s arbitrary: b)
  case Nil
  show ?case by (simp add: js_def)
next
  case (Cons c cs)
  have "?R b (c # cs) \<longleftrightarrow> (b \<and> headerAt (c # cs)) \<or> ?R (isLineTerminator c) cs"
  proof
    assume "?R b (c # cs)"
    then obtain pre post where e: "c # cs = pre @ js ''#EXTM3U'' @ post"
      and p: "if pre = [] then b else isLineTerminator (last pre)"
      and q: "post = [] \<or> isLineTerminator (hd post) \<or> hd post = SPACE \<or> hd post = TAB"
      by blast
    show "(b \<and> headerAt (c # cs)) \<or> ?R (isLineTerminator c) cs"
    proof (cases pre)
      case Nil
      with e p q have "b \<and> headerAt (c # cs)" unfolding headerAt_iff by auto
      then show ?thesis ..
    next
      case (Cons x pre')
      with e have c: "x = c" and cs: "cs = pre' @ js ''#EXTM3U'' @ post" by auto
      from p Cons c have "if pre' = [] then isLineTerminator c else isLineTerminator (last pre')"
        by (auto split: if_splits)
      with cs q have "?R (isLineTerminator c) cs" by blast
      then show ?thesis ..
    qed
  next
    assume "(b \<and> headerAt (c # cs)) \<or> ?R (isLineTerminator c) cs"
    then show "?R b (c # cs)"
    proof
      assume "b \<and> headerAt (c # cs)"
      then obtain post where "c # cs = [] @ js ''#EXTM3U'' @ post" "b"
        "post = [] \<or> isLineTerminator (hd post) \<or> hd post = SPACE \<or> hd post = TAB"
        unfolding headerAt_iff by auto
      then show ?thesis by (intro exI [of _ "[]"] exI [of _ post]) simp
    next
      assume "?R (isLineTerminator c) cs"
      then obtain pre post where e: "cs = pre @ js ''#EXTM3U'' @ post"
        and p: "if pre = [] then isLineTerminator c else isLineTerminator (last pre)"
        and q: "post = [] \<or> isLineTerminator (hd post) \<or> hd post = SPACE \<or> hd post = TAB"
        by blast
      from e have "c # cs = (c # pre) @ js ''#EXTM3U'' @ post" by simp
      moreover from p have "isLineTerminator (last (c # pre))" by (auto split: if_splits)
      ultimately show ?thesis using q by (intro exI [of _ "c # pre"] exI [of _ post]) simp
    qed
  qed
  with Cons.IH [of "isLineTerminator c"] show ?case by simp
qed

text \<open>The header test on a line of the input, which holds no LF and no CR: the line holds
  the header token at its start or right after a line or paragraph separator, and the
  token is followed by the end of the line, a space, a tab, or such a separator.\<close>

lemma header_test_line:
  assumes "l \<in> set (linesOf str)"
  shows "header_test l \<longleftrightarrow>
     (\<exists>pre post. l = pre @ js ''#EXTM3U'' @ post
        \<and> (pre = [] \<or> last pre = LS \<or> last pre = PS)
        \<and> (post = [] \<or> hd post = SPACE \<or> hd post = TAB \<or> hd post = LS \<or> hd post = PS))"
proof -
  have t: "\<And>c. c \<in> set l \<Longrightarrow> isLineTerminator c \<longleftrightarrow> c = LS \<or> c = PS"
    using linesOf_terminators [OF assms] by blast
  have "\<And>pre post. l = pre @ js ''#EXTM3U'' @ post \<Longrightarrow>
      ((if pre = [] then True else isLineTerminator (last pre))
        \<and> (post = [] \<or> isLineTerminator (hd post) \<or> hd post = SPACE \<or> hd post = TAB))
      \<longleftrightarrow> ((pre = [] \<or> last pre = LS \<or> last pre = PS)
        \<and> (post = [] \<or> hd post = SPACE \<or> hd post = TAB \<or> hd post = LS \<or> hd post = PS))"
  proof -
    fix pre post assume l: "l = pre @ js ''#EXTM3U'' @ post"
    have a: "pre \<noteq> [] \<Longrightarrow> isLineTerminator (last pre) \<longleftrightarrow> last pre = LS \<or> last pre = PS"
      using t [of "last pre"] l by simp
    have b: "post \<noteq> [] \<Longrightarrow> isLineTerminator (hd post) \<longleftrightarrow> hd post = LS \<or> hd post = PS"
      using t [of "hd post"] l by simp
    show "((if pre = [] then True else isLineTerminator (last pre))
        \<and> (post = [] \<or> isLineTerminator (hd post) \<or> hd post = SPACE \<or> hd post = TAB))
      \<longleftrightarrow> ((pre = [] \<or> last pre = LS \<or> last pre = PS)
        \<and> (post = [] \<or> hd post = SPACE \<or> hd post = TAB \<or> hd post = LS \<or> hd post = PS))"
      using a b by (cases "pre = []"; cases "post = []") auto
  qed
  then show ?thesis
    unfolding header_test_def header_search_iff by blast
qed

subsection \<open>The scan before segment mode\<close>

lemma scan_prefix:
  assumes "\<forall>x\<in>set (handed (p_skip st) ls1). nonSegmentDirective x"
  shows "\<exists>st'. scanLines (ls1 @ ls2) st = scanLines ls2 st'
            \<and> p_skip st' = skipAfter (p_skip st) ls1
            \<and> p_globalId st' = p_globalId st + length (handed (p_skip st) ls1)"
  using assms
proof (induction ls1 arbitrary: st)
  case Nil
  then show ?case by auto
next
  case (Cons l ls)
  show ?case
  proof (cases "isComment l \<or> p_skip st")
    case True
    with Cons.prems have "\<forall>x\<in>set (handed (p_skip (st\<lparr>p_skip := False\<rparr>)) ls). nonSegmentDirective x"
      by simp
    from Cons.IH [OF this] True show ?thesis by auto
  next
    case False
    with Cons.prems have nl: "nonSegmentDirective l" by simp
    then obtain n where n: "tagName l = Some n" "n \<notin> set SEGMENT_TAGS"
      by (auto simp: nonSegmentDirective_iff)
    then obtain tag where t: "parseTag (p_globalId st) l = Inr tag" "tag_name tag = n"
      using parseTag_Some by blast
    define st1 where "st1 = detectType (st\<lparr>p_globalId := p_globalId st + 1\<rparr>) tag"
    define tag' where "tag' = (if tag_name tag = js ''EXT-X-STREAM-INF''
       then addAttribute tag \<lparr>attr_name = js ''URI'', attr_value = (case ls @ ls2 of [] \<Rightarrow> None | n # _ \<Rightarrow> Some n)\<rparr>
       else tag)"
    define st2 where "st2 = st1\<lparr>p_tags := p_tags st1 @ [tag'],
                             p_tagIndex := updateTagIndexForTag' (p_tagIndex st1) tag',
                             p_skip := (tag_name tag' = js ''EXT-X-STREAM-INF'')\<rparr>"
    have tn: "tag_name tag' = n" using t by (simp add: tag'_def addAttribute_def)
    have step: "scanLines ((l # ls) @ ls2) st = scanLines (ls @ ls2) st2"
      using False t n by (simp add: Let_def st1_def st2_def tag'_def)
    have sk: "p_skip st2 = (tagName l = Some (js ''EXT-X-STREAM-INF''))"
      using n tn by (auto simp: st2_def)
    have g: "p_globalId st2 = p_globalId st + 1"
      by (simp add: st2_def st1_def detectType_def)
    from Cons.prems False sk have "\<forall>x\<in>set (handed (p_skip st2) ls). nonSegmentDirective x"
      by simp
    from Cons.IH [OF this] obtain st' where
      "scanLines (ls @ ls2) st2 = scanLines ls2 st'" "p_skip st' = skipAfter (p_skip st2) ls"
      "p_globalId st' = p_globalId st2 + length (handed (p_skip st2) ls)" by blast
    with step sk g False show ?thesis by auto
  qed
qed

lemma scanLines_segments:
  "scanLines ls st = Inr p \<Longrightarrow>
     \<exists>segs. pl_segments p = Some segs \<and> (pl_type p = MASTER \<longrightarrow> segs = [])"
proof (induction ls arbitrary: st)
  case Nil
  then show ?case by (auto simp: newPlaylist_def)
next
  case (Cons l ls)
  show ?case
  proof (cases "isComment l \<or> p_skip st")
    case True
    with Cons.prems have "scanLines ls (st\<lparr>p_skip := False\<rparr>) = Inr p" by simp
    then show ?thesis by (rule Cons.IH)
  next
    case False
    with Cons.prems obtain tag where t: "parseTag (p_globalId st) l = Inr tag"
      by (auto split: sum.splits)
    let ?st = "detectType (st\<lparr>p_globalId := p_globalId st + 1\<rparr>) tag"
    show ?thesis
    proof (cases "tag_name tag \<in> set SEGMENT_TAGS")
      case True
      with Cons.prems False t show ?thesis
        by (auto simp: Let_def newPlaylist_def split: if_splits sum.splits PlaylistType.splits)
    next
      case seg: False
      with Cons.prems False t obtain st' where "scanLines ls st' = Inr p"
        by (auto simp: Let_def)
      then show ?thesis by (rule Cons.IH)
    qed
  qed
qed

subsection \<open>The header\<close>

text \<open>
  C9. As stated, the parse fails with the missing header error exactly when the first line
  is not the header token. The header pattern is searched in the first line, with the flag
  \<^verbatim>\<open>m\<close>: it also accepts a line that goes on after the token with a space or a tab, and
  a line that holds the token after a line separator (U+2028) or a paragraph separator
  (U+2029), which the splitting leaves inside the line. The claim as amended: the parse
  fails with \<^verbatim>\<open>HLS_PLAYLIST_HEADER_MISSING\<close> if and only if the first line of the normalised
  and trimmed input holds no occurrence of \<^verbatim>\<open>#EXTM3U\<close> that stands at the start of the line
  or right after a line or paragraph separator, and that is followed by the end of the
  line, a space, a tab, or a line or paragraph separator. A failing parse yields an error
  and no playlist, by the type of the result.
\<close>

theorem C9_header_missing_iff:
  "parsePlaylist g str = Inl HLS_PLAYLIST_HEADER_MISSING \<longleftrightarrow>
     \<not> (\<exists>pre post. hd (linesOf str) = pre @ js ''#EXTM3U'' @ post
           \<and> (pre = [] \<or> last pre = LS \<or> last pre = PS)
           \<and> (post = [] \<or> hd post = SPACE \<or> hd post = TAB \<or> hd post = LS \<or> hd post = PS))"
proof -
  obtain l ls where ls: "linesOf str = l # ls"
    using linesOf_nonempty by (cases "linesOf str") auto
  then have "l \<in> set (linesOf str)" by simp
  from header_test_line [OF this] ls show ?thesis
    using scanLines_no_header_error by (simp add: parsePlaylist_def Let_def)
qed

text \<open>A first line that is not the header token, and yet no missing header error.\<close>

theorem C9_counterexample:
  "hd (linesOf doc_header_junk) \<noteq> js ''#EXTM3U''
   \<and> map_sum id pl_type (parsePlaylist 0 doc_header_junk) = Inr MEDIA"
  by code_simp

text \<open>The theorem at two inputs: a first line without the token, and the header token
  after a line separator.\<close>

theorem C9_witness:
  "\<not> (\<exists>pre post. hd (linesOf (js ''invalid playlist'')) = pre @ js ''#EXTM3U'' @ post
           \<and> (pre = [] \<or> last pre = LS \<or> last pre = PS)
           \<and> (post = [] \<or> hd post = SPACE \<or> hd post = TAB \<or> hd post = LS \<or> hd post = PS))
   \<and> parsePlaylist 0 doc_header_separator \<noteq> Inl HLS_PLAYLIST_HEADER_MISSING"
proof -
  have "parsePlaylist 0 (js ''invalid playlist'') = Inl HLS_PLAYLIST_HEADER_MISSING"
    by code_simp
  then have a: "\<not> (\<exists>pre post. hd (linesOf (js ''invalid playlist'')) = pre @ js ''#EXTM3U'' @ post
           \<and> (pre = [] \<or> last pre = LS \<or> last pre = PS)
           \<and> (post = [] \<or> hd post = SPACE \<or> hd post = TAB \<or> hd post = LS \<or> hd post = PS))"
    unfolding C9_header_missing_iff [of 0 "js ''invalid playlist''"] .
  have 2: "hd (linesOf doc_header_separator) = (js ''x'' @ [LS]) @ js ''#EXTM3U'' @ js '' v1''"
    by code_simp
  have "\<exists>pre post. hd (linesOf doc_header_separator) = pre @ js ''#EXTM3U'' @ post
           \<and> (pre = [] \<or> last pre = LS \<or> last pre = PS)
           \<and> (post = [] \<or> hd post = SPACE \<or> hd post = TAB \<or> hd post = LS \<or> hd post = PS)"
    unfolding 2 by (intro exI [of _ "js ''x'' @ [LS]"] exI [of _ "js '' v1''"]) (simp add: js_def)
  then have b: "parsePlaylist 0 doc_header_separator \<noteq> Inl HLS_PLAYLIST_HEADER_MISSING"
    unfolding C9_header_missing_iff [of 0 doc_header_separator] by simp
  from a b show ?thesis ..
qed

subsection \<open>Lines that are no directives\<close>

text \<open>
  C10. In the scanning phase, a line that is no comment, does not begin with \<^verbatim>\<open>#EXT\<close> and
  is not consumed as the URI of a stream variant makes the parse fail with
  \<^verbatim>\<open>INVALID_HLS_TAG\<close> for that line. The scanning phase reaches the line \<open>l\<close> when the lines
  \<open>pre\<close> between the header and \<open>l\<close> that are handed to the tag parser are well-formed
  directives, none of them segment-only.
\<close>

theorem C10_bare_line_in_scanning_mode:
  assumes "linesOf str = l0 # pre @ l # post"
    and "header_test l0"
    and "\<forall>x\<in>set (handed False pre). nonSegmentDirective x"
    and "\<not> skipAfter False pre"
    and "\<not> isComment l" and "\<not> startsWith l (js ''#EXT'')"
  shows "parsePlaylist g str = Inl (INVALID_HLS_TAG l)"
proof -
  let ?st0 = "\<lparr>p_playlistType = MASTER, p_typeDetected = False, p_tags = [],
                 p_tagIndex = createDefaultTagIndex', p_skip = True, p_globalId = g\<rparr>"
  have "\<forall>x\<in>set (handed (p_skip ?st0) (l0 # pre)). nonSegmentDirective x"
    using assms(3) by simp
  from scan_prefix [OF this, of "l # post"] obtain st' where
    st': "scanLines ((l0 # pre) @ l # post) ?st0 = scanLines (l # post) st'"
      "p_skip st' = skipAfter (p_skip ?st0) (l0 # pre)" by blast
  have "\<not> p_skip st'" using st'(2) assms(4) by simp
  moreover have "tagName l = None"
    using assms(6) by (simp add: tagName_def tagBlocks_def)
  ultimately have "scanLines (l # post) st' = Inl (INVALID_HLS_TAG l)"
    using assms(5) by (simp add: parseTag_None)
  with st'(1) assms(1,2) show ?thesis
    by (simp add: parsePlaylist_def Let_def)
qed

theorem C10_witness:
  "parsePlaylist 0 doc_invalid_tag = Inl (INVALID_HLS_TAG (js ''invalid tag''))"
proof -
  have 1: "linesOf doc_invalid_tag = js ''#EXTM3U'' # [] @ js ''invalid tag'' # []" by code_simp
  have 2: "header_test (js ''#EXTM3U'')" by code_simp
  have 3: "\<not> isComment (js ''invalid tag'')" by code_simp
  have 4: "\<not> startsWith (js ''invalid tag'') (js ''#EXT'')" by code_simp
  show ?thesis
    by (rule C10_bare_line_in_scanning_mode [OF 1 2 _ _ 3 4]) simp_all
qed

subsection \<open>The hierarchy rule\<close>

lemma master_names:
  "(js ''EXT-X-STREAM-INF'') \<notin> set SEGMENT_TAGS" "(js ''EXT-X-MEDIA'') \<notin> set SEGMENT_TAGS"
  "(js ''EXT-X-STREAM-INF'') \<notin> set MEDIA_PLAYLIST_TAGS" "(js ''EXT-X-MEDIA'') \<notin> set MEDIA_PLAYLIST_TAGS"
  by (simp_all add: SEGMENT_TAGS_def MEDIA_PLAYLIST_TAGS_def)

lemma scanLines_hierarchy:
  "scanLines ls st = Inl HLS_INVALID_PLAYLIST_HIERARCHY \<longleftrightarrow>
     hierarchyViolation (p_typeDetected st) (p_playlistType st) (handed (p_skip st) ls)"
proof (induction ls arbitrary: st)
  case Nil
  show ?case by simp
next
  case (Cons l ls)
  show ?case
  proof (cases "isComment l \<or> p_skip st")
    case True
    then show ?thesis using Cons.IH [of "st\<lparr>p_skip := False\<rparr>"] by auto
  next
    case False
    show ?thesis
    proof (cases "tagName l")
      case None
      with False show ?thesis by (simp add: parseTag_None)
    next
      case (Some n)
      then obtain tag where t: "parseTag (p_globalId st) l = Inr tag" "tag_name tag = n"
        using parseTag_Some by blast
      define st1 where "st1 = detectType (st\<lparr>p_globalId := p_globalId st + 1\<rparr>) tag"
      have ty1: "p_playlistType st1 = (if \<not> p_typeDetected st then
                        (if n \<in> set MEDIA_PLAYLIST_TAGS then MEDIA
                         else if n = js ''EXT-X-STREAM-INF'' \<or> n = js ''EXT-X-MEDIA'' then p_playlistType st
                         else if n \<in> set SEGMENT_TAGS then MEDIA
                         else p_playlistType st)
                      else p_playlistType st)"
        and det1: "p_typeDetected st1 = (p_typeDetected st \<or> n \<in> set MEDIA_PLAYLIST_TAGS \<or> n = js ''EXT-X-STREAM-INF''
                           \<or> n = js ''EXT-X-MEDIA'' \<or> n \<in> set SEGMENT_TAGS)"
        using t(2) by (auto simp: st1_def detectType_def)
      show ?thesis
      proof (cases "n \<in> set SEGMENT_TAGS")
        case True
        have "scanLines (l # ls) st =
            (if p_playlistType st1 \<noteq> MEDIA then Inl HLS_INVALID_PLAYLIST_HIERARCHY
             else (case parseSegments' (l # ls) (p_tags st1) (p_tagIndex st1) (p_globalId st1) of
                     Inl e \<Rightarrow> Inl e
                   | Inr s \<Rightarrow> Inr (newPlaylist (p_playlistType st1) (s_playlistTags s)
                                  \<lparr>playlist = s_tagIndex s, segments = analysis s\<rparr>
                                  (Some (s_segments s)))))"
          unfolding st1_def using False t True by (simp add: Let_def cong: sum.case_cong)
        then have "scanLines (l # ls) st = Inl HLS_INVALID_PLAYLIST_HIERARCHY \<longleftrightarrow> p_playlistType st1 \<noteq> MEDIA"
          using parseSegments'_error [of "l # ls" "p_tags st1" "p_tagIndex st1" "p_globalId st1" HLS_INVALID_PLAYLIST_HIERARCHY]
          by (auto split: sum.splits)
        then show ?thesis using False Some True ty1 by (simp add: Let_def)
      next
        case nseg: False
        define tag' where "tag' = (if tag_name tag = js ''EXT-X-STREAM-INF''
           then addAttribute tag \<lparr>attr_name = js ''URI'', attr_value = (case ls of [] \<Rightarrow> None | n # _ \<Rightarrow> Some n)\<rparr>
           else tag)"
        define st2 where "st2 = st1\<lparr>p_tags := p_tags st1 @ [tag'],
                             p_tagIndex := updateTagIndexForTag' (p_tagIndex st1) tag',
                             p_skip := (tag_name tag' = js ''EXT-X-STREAM-INF'')\<rparr>"
        have tn: "tag_name tag' = n" using t by (simp add: tag'_def addAttribute_def)
        have step: "scanLines (l # ls) st = scanLines ls st2"
          using False t nseg by (simp add: Let_def st1_def st2_def tag'_def)
        have "p_skip st2 = (tagName l = Some (js ''EXT-X-STREAM-INF''))" "p_typeDetected st2 = p_typeDetected st1"
          "p_playlistType st2 = p_playlistType st1"
          using Some tn by (auto simp: st2_def)
        with step Cons.IH [of st2] False Some nseg ty1 det1 show ?thesis
          by (simp add: Let_def)
      qed
    qed
  qed
qed

lemma hierarchyViolation_media: "\<not> hierarchyViolation True MEDIA xs"
  by (induction xs) (auto simp: Let_def split: option.splits)

lemma hierarchyViolation_master:
  "hierarchyViolation True MASTER xs \<longleftrightarrow>
     (\<exists>mid l post. xs = mid @ l # post \<and> (\<forall>x\<in>set mid. nonSegmentDirective x) \<and> segmentDirective l)"
proof (induction xs)
  case Nil
  show ?case by simp
next
  case (Cons x xs)
  show ?case
  proof (cases "tagName x")
    case None
    have "\<not> (\<exists>mid l post. x # xs = mid @ l # post \<and> (\<forall>x\<in>set mid. nonSegmentDirective x) \<and> segmentDirective l)"
    proof
      assume "\<exists>mid l post. x # xs = mid @ l # post \<and> (\<forall>x\<in>set mid. nonSegmentDirective x) \<and> segmentDirective l"
      then obtain mid l post where d: "x # xs = mid @ l # post" "\<forall>x\<in>set mid. nonSegmentDirective x" "segmentDirective l"
        by blast
      then have "nonSegmentDirective x \<or> segmentDirective x" by (cases mid) auto
      with None show False by (auto simp: nonSegmentDirective_iff segmentDirective_iff)
    qed
    with None show ?thesis by simp
  next
    case (Some n)
    show ?thesis
    proof (cases "n \<in> set SEGMENT_TAGS")
      case True
      then have "segmentDirective x" using Some by (simp add: segmentDirective_iff)
      then have "\<exists>mid l post. x # xs = mid @ l # post \<and> (\<forall>x\<in>set mid. nonSegmentDirective x) \<and> segmentDirective l"
        by (intro exI [of _ "[]"] exI [of _ x] exI [of _ xs]) simp
      with Some True show ?thesis by (simp add: Let_def)
    next
      case False
      then have nx: "nonSegmentDirective x" "\<not> segmentDirective x"
        using Some by (auto simp: nonSegmentDirective_iff segmentDirective_iff)
      have "(\<exists>mid l post. x # xs = mid @ l # post \<and> (\<forall>x\<in>set mid. nonSegmentDirective x) \<and> segmentDirective l)
         \<longleftrightarrow> (\<exists>mid l post. xs = mid @ l # post \<and> (\<forall>x\<in>set mid. nonSegmentDirective x) \<and> segmentDirective l)"
        (is "?A \<longleftrightarrow> ?B")
      proof
        assume ?A
        then obtain mid l post where d: "x # xs = mid @ l # post" "\<forall>x\<in>set mid. nonSegmentDirective x" "segmentDirective l"
          by blast
        with nx obtain mid' where "mid = x # mid'" by (cases mid) auto
        with d show ?B by auto
      next
        assume ?B
        then obtain mid l post where d: "xs = mid @ l # post" "\<forall>x\<in>set mid. nonSegmentDirective x" "segmentDirective l"
          by blast
        show ?A
          by (intro exI [of _ "x # mid"] exI [of _ l] exI [of _ post]) (use d nx in simp)
      qed
      with Cons.IH Some False show ?thesis by (simp add: Let_def)
    qed
  qed
qed

lemma hierarchyViolation_undetected:
  "hierarchyViolation False MASTER xs \<longleftrightarrow>
     (\<exists>pre m mid l post. xs = pre @ m # mid @ l # post \<and> (\<forall>x\<in>set pre. neutralDirective x)
        \<and> masterDeclaration m \<and> (\<forall>x\<in>set mid. nonSegmentDirective x) \<and> segmentDirective l)"
  (is "_ \<longleftrightarrow> ?R xs")
proof (induction xs)
  case Nil
  show ?case by simp
next
  case (Cons x xs)
  have hd_cases: "?R (x # xs) \<longleftrightarrow>
      (masterDeclaration x \<and> (\<exists>mid l post. xs = mid @ l # post \<and> (\<forall>x\<in>set mid. nonSegmentDirective x) \<and> segmentDirective l))
      \<or> (neutralDirective x \<and> ?R xs)" (is "_ \<longleftrightarrow> ?M \<or> ?N")
  proof
    assume "?R (x # xs)"
    then obtain pre m mid l post where d: "x # xs = pre @ m # mid @ l # post" "\<forall>x\<in>set pre. neutralDirective x"
      "masterDeclaration m" "\<forall>x\<in>set mid. nonSegmentDirective x" "segmentDirective l" by blast
    show "?M \<or> ?N"
    proof (cases pre)
      case Nil
      with d have "x = m" "xs = mid @ l # post" by auto
      with d show ?thesis by blast
    next
      case (Cons y pre')
      with d have "x = y" "xs = pre' @ m # mid @ l # post" "neutralDirective x" "\<forall>x\<in>set pre'. neutralDirective x" by auto
      with d show ?thesis by blast
    qed
  next
    assume "?M \<or> ?N"
    then show "?R (x # xs)"
    proof
      assume ?M
      then obtain mid l post where "masterDeclaration x" "xs = mid @ l # post" "\<forall>x\<in>set mid. nonSegmentDirective x" "segmentDirective l"
        by blast
      then show ?thesis
        by (intro exI [of _ "[]"] exI [of _ x] exI [of _ mid] exI [of _ l] exI [of _ post]) simp
    next
      assume ?N
      then obtain pre m mid l post where "neutralDirective x" "xs = pre @ m # mid @ l # post" "\<forall>x\<in>set pre. neutralDirective x"
      "masterDeclaration m" "\<forall>x\<in>set mid. nonSegmentDirective x" "segmentDirective l" by blast
      then show ?thesis
        by (intro exI [of _ "x # pre"] exI [of _ m] exI [of _ mid] exI [of _ l] exI [of _ post]) simp
    qed
  qed
  show ?case
  proof (cases "tagName x")
    case None
    then have "\<not> masterDeclaration x" "\<not> neutralDirective x"
      by (auto simp: masterDeclaration_def neutralDirective_iff)
    with None hd_cases show ?thesis by simp
  next
    case (Some n)
    consider (mp) "n \<in> set MEDIA_PLAYLIST_TAGS" | (ma) "n = js ''EXT-X-STREAM-INF'' \<or> n = js ''EXT-X-MEDIA''"
      | (sg) "n \<notin> set MEDIA_PLAYLIST_TAGS" "n \<in> set SEGMENT_TAGS"
      | (ne) "n \<notin> set MEDIA_PLAYLIST_TAGS" "n \<notin> set SEGMENT_TAGS" "n \<noteq> js ''EXT-X-STREAM-INF''" "n \<noteq> js ''EXT-X-MEDIA''"
      by blast
    then show ?thesis
    proof cases
      case mp
      then have "\<not> masterDeclaration x" "\<not> neutralDirective x"
        using Some master_names by (auto simp: masterDeclaration_def neutralDirective_iff)
      with Some mp hd_cases show ?thesis
        using hierarchyViolation_media [of xs] by (simp add: Let_def)
    next
      case ma
      then have "masterDeclaration x" "\<not> neutralDirective x" "n \<notin> set SEGMENT_TAGS" "n \<notin> set MEDIA_PLAYLIST_TAGS"
        using Some master_names by (auto simp: masterDeclaration_def neutralDirective_iff)
      with Some ma hd_cases show ?thesis
        using hierarchyViolation_master [of xs] by (auto simp: Let_def)
    next
      case sg
      then have "\<not> masterDeclaration x" "\<not> neutralDirective x" "n \<noteq> js ''EXT-X-STREAM-INF''" "n \<noteq> js ''EXT-X-MEDIA''"
        using Some master_names by (auto simp: masterDeclaration_def neutralDirective_iff)
      with Some sg hd_cases show ?thesis by (simp add: Let_def)
    next
      case ne
      then have "\<not> masterDeclaration x" "neutralDirective x"
        using Some by (auto simp: masterDeclaration_def neutralDirective_iff)
      with Some ne hd_cases Cons.IH show ?thesis by (simp add: Let_def)
    qed
  qed
qed

lemma scanLines_segment_first:
  assumes "\<not> p_typeDetected st"
    and "handed (p_skip st) ls = pre @ l # post"
    and "\<forall>x\<in>set pre. neutralDirective x"
    and "segmentDirective l"
  shows "scanLines ls st \<noteq> Inl HLS_INVALID_PLAYLIST_HIERARCHY
         \<and> (\<forall>p. scanLines ls st = Inr p \<longrightarrow> pl_type p = MEDIA)"
  using assms
proof (induction ls arbitrary: st pre)
  case Nil
  then show ?case by simp
next
  case (Cons x ls)
  show ?case
  proof (cases "isComment x \<or> p_skip st")
    case True
    with Cons.prems have "handed (p_skip (st\<lparr>p_skip := False\<rparr>)) ls = pre @ l # post"
      "\<not> p_typeDetected (st\<lparr>p_skip := False\<rparr>)" by auto
    from Cons.IH [OF this(2) this(1) Cons.prems(3,4)] True show ?thesis by auto
  next
    case False
    with Cons.prems(2) have h: "x # handed (tagName x = Some (js ''EXT-X-STREAM-INF'')) ls = pre @ l # post"
      by simp
    show ?thesis
    proof (cases pre)
      case Nil
      with h have xl: "x = l" by simp
      with Cons.prems(4) obtain n where n: "tagName x = Some n" "n \<in> set SEGMENT_TAGS"
        by (auto simp: segmentDirective_iff)
      then obtain tag where t: "parseTag (p_globalId st) x = Inr tag" "tag_name tag = n"
        using parseTag_Some by blast
      define st1 where "st1 = detectType (st\<lparr>p_globalId := p_globalId st + 1\<rparr>) tag"
      have ty: "p_playlistType st1 = MEDIA"
        using Cons.prems(1) t(2) n(2) master_names by (auto simp: st1_def detectType_def)
      have "scanLines (x # ls) st =
            (if p_playlistType st1 \<noteq> MEDIA then Inl HLS_INVALID_PLAYLIST_HIERARCHY
             else (case parseSegments' (x # ls) (p_tags st1) (p_tagIndex st1) (p_globalId st1) of
                     Inl e \<Rightarrow> Inl e
                   | Inr s \<Rightarrow> Inr (newPlaylist (p_playlistType st1) (s_playlistTags s)
                                  \<lparr>playlist = s_tagIndex s, segments = analysis s\<rparr>
                                  (Some (s_segments s)))))"
        unfolding st1_def using False t n by (simp add: Let_def cong: sum.case_cong)
      with ty show ?thesis
        using parseSegments'_error [of "x # ls" "p_tags st1" "p_tagIndex st1" "p_globalId st1" HLS_INVALID_PLAYLIST_HIERARCHY]
        by (auto simp: newPlaylist_def split: sum.splits)
    next
      case (Cons y pre')
      with h have xy: "x = y" and h': "handed (tagName x = Some (js ''EXT-X-STREAM-INF'')) ls = pre' @ l # post"
        by auto
      from Cons Cons.prems(3) xy have nx: "neutralDirective x" and np: "\<forall>x\<in>set pre'. neutralDirective x"
        by auto
      then obtain n where n: "tagName x = Some n" "n \<notin> set SEGMENT_TAGS" "n \<notin> set MEDIA_PLAYLIST_TAGS"
        "n \<noteq> js ''EXT-X-STREAM-INF''" "n \<noteq> js ''EXT-X-MEDIA''"
        by (auto simp: neutralDirective_iff)
      then obtain tag where t: "parseTag (p_globalId st) x = Inr tag" "tag_name tag = n"
        using parseTag_Some by blast
      define st2 where "st2 = (detectType (st\<lparr>p_globalId := p_globalId st + 1\<rparr>) tag)
             \<lparr>p_tags := p_tags (detectType (st\<lparr>p_globalId := p_globalId st + 1\<rparr>) tag) @ [tag],
              p_tagIndex := updateTagIndexForTag' (p_tagIndex (detectType (st\<lparr>p_globalId := p_globalId st + 1\<rparr>) tag)) tag,
              p_skip := False\<rparr>"
      have step: "scanLines (x # ls) st = scanLines ls st2"
        using False t n by (simp add: Let_def st2_def)
      have "\<not> p_typeDetected st2" "p_skip st2 = (tagName x = Some (js ''EXT-X-STREAM-INF''))"
        using Cons.prems(1) t(2) n by (auto simp: st2_def detectType_def)
      with h' have "\<not> p_typeDetected st2" "handed (p_skip st2) ls = pre' @ l # post" by auto
      from Cons.IH [OF this np Cons.prems(4)] step show ?thesis by simp
    qed
  qed
qed

text \<open>
  The hierarchy rule over the lines that the scan hands to the tag parser. The parse fails
  with \<^verbatim>\<open>HLS_INVALID_PLAYLIST_HIERARCHY\<close> if and only if the header is present and, among the
  handed lines, the first directive that determines the type of the playlist is a
  declaration of a stream variant or of alternative media, a segment-only directive follows
  it, and the directives before that one are well-formed and not segment-only. When the
  first directive that determines the type is segment-only instead, there is no such
  failure and a playlist that the parse returns has the type MEDIA.
\<close>

lemma hierarchy_rule_iff:
  "(parsePlaylist g str = Inl HLS_INVALID_PLAYLIST_HIERARCHY \<longleftrightarrow>
      header_test (hd (linesOf str)) \<and>
      (\<exists>pre m mid l post.
         handed True (linesOf str) = pre @ m # mid @ l # post
         \<and> (\<forall>x\<in>set pre. neutralDirective x) \<and> masterDeclaration m
         \<and> (\<forall>x\<in>set mid. nonSegmentDirective x) \<and> segmentDirective l))
   \<and> (\<forall>pre l post.
         handed True (linesOf str) = pre @ l # post
         \<and> (\<forall>x\<in>set pre. neutralDirective x) \<and> segmentDirective l \<longrightarrow>
         parsePlaylist g str \<noteq> Inl HLS_INVALID_PLAYLIST_HIERARCHY
         \<and> (\<forall>p. parsePlaylist g str = Inr p \<longrightarrow> pl_type p = MEDIA))"
proof -
  obtain l0 ls where ls: "linesOf str = l0 # ls"
    using linesOf_nonempty by (cases "linesOf str") auto
  let ?st0 = "\<lparr>p_playlistType = MASTER, p_typeDetected = False, p_tags = [],
                p_tagIndex = createDefaultTagIndex', p_skip = True, p_globalId = g\<rparr>"
  have 1: "parsePlaylist g str = Inl HLS_INVALID_PLAYLIST_HIERARCHY \<longleftrightarrow>
      header_test (hd (linesOf str)) \<and>
      (\<exists>pre m mid l post.
         handed True (linesOf str) = pre @ m # mid @ l # post
         \<and> (\<forall>x\<in>set pre. neutralDirective x) \<and> masterDeclaration m
         \<and> (\<forall>x\<in>set mid. nonSegmentDirective x) \<and> segmentDirective l)"
    unfolding hierarchyViolation_undetected [symmetric] parsePlaylist_def Let_def ls
    by (simp add: scanLines_hierarchy del: scanLines.simps handed.simps hierarchyViolation.simps)
  have 2: "parsePlaylist g str \<noteq> Inl HLS_INVALID_PLAYLIST_HIERARCHY
         \<and> (\<forall>p. parsePlaylist g str = Inr p \<longrightarrow> pl_type p = MEDIA)"
    if h: "handed True (linesOf str) = pre @ l # post" "\<forall>x\<in>set pre. neutralDirective x" "segmentDirective l"
    for pre l post
  proof -
    have "\<not> p_typeDetected ?st0" "handed (p_skip ?st0) (linesOf str) = pre @ l # post"
      using h(1) by simp_all
    from scanLines_segment_first [OF this h(2,3)] show ?thesis
      by (auto simp: parsePlaylist_def Let_def ls simp del: scanLines.simps)
  qed
  from 1 2 show ?thesis by blast
qed

lemma hierarchy_rule_examples:
  "parsePlaylist 0 doc_master_with_segment = Inl HLS_INVALID_PLAYLIST_HIERARCHY
   \<and> (\<exists>p. parsePlaylist 0 doc_key_first = Inr p \<and> pl_type p = MEDIA)"
proof -
  have a: "header_test (hd (linesOf doc_master_with_segment))" by code_simp
  have b: "handed True (linesOf doc_master_with_segment)
             = [] @ js ''#EXT-X-MEDIA:TYPE=AUDIO'' # [] @ js ''#EXTINF:6.00600'' # []" by code_simp
  have c: "masterDeclaration (js ''#EXT-X-MEDIA:TYPE=AUDIO'')" by code_simp
  have "tagName (js ''#EXTINF:6.00600'') = Some (js ''EXTINF'')" by code_simp
  then have d: "segmentDirective (js ''#EXTINF:6.00600'')"
    by (simp add: segmentDirective_iff SEGMENT_TAGS_def)
  have "\<exists>pre m mid l post.
         handed True (linesOf doc_master_with_segment) = pre @ m # mid @ l # post
         \<and> (\<forall>x\<in>set pre. neutralDirective x) \<and> masterDeclaration m
         \<and> (\<forall>x\<in>set mid. nonSegmentDirective x) \<and> segmentDirective l"
    by (intro exI [of _ "[]"] exI [of _ "(js ''#EXT-X-MEDIA:TYPE=AUDIO'')"] exI [of _ "(js ''#EXTINF:6.00600'')"])
       (use b c d in simp)
  with a have 1: "parsePlaylist 0 doc_master_with_segment = Inl HLS_INVALID_PLAYLIST_HIERARCHY"
    using hierarchy_rule_iff [of 0 doc_master_with_segment] by blast
  have e: \<open>handed True (linesOf doc_key_first)
             = [] @ js ''#EXT-X-KEY:METHOD="AES-128",URI="http://key.com",IV="123"''
                # [js ''#EXT-X-TARGETDURATION:6'', js ''#EXTINF:6'', js ''https://test/test.mp4'']\<close>
    by code_simp
  have \<open>tagName (js ''#EXT-X-KEY:METHOD="AES-128",URI="http://key.com",IV="123"'') = Some (js ''EXT-X-KEY'')\<close>
    by code_simp
  then have f: \<open>segmentDirective (js ''#EXT-X-KEY:METHOD="AES-128",URI="http://key.com",IV="123"'')\<close>
    by (simp add: segmentDirective_iff SEGMENT_TAGS_def)
  have "\<not> isl (parsePlaylist 0 doc_key_first)" by code_simp
  then obtain p where p: "parsePlaylist 0 doc_key_first = Inr p"
    by (cases "parsePlaylist 0 doc_key_first") auto
  from e f have g: \<open>handed True (linesOf doc_key_first)
             = [] @ js ''#EXT-X-KEY:METHOD="AES-128",URI="http://key.com",IV="123"''
                # [js ''#EXT-X-TARGETDURATION:6'', js ''#EXTINF:6'', js ''https://test/test.mp4'']
      \<and> (\<forall>x\<in>set []. neutralDirective x)
      \<and> segmentDirective (js ''#EXT-X-KEY:METHOD="AES-128",URI="http://key.com",IV="123"'')\<close>
    by simp
  have "pl_type p = MEDIA"
    using hierarchy_rule_iff [of 0 doc_key_first, THEN conjunct2, rule_format, OF g] p
    by simp
  with 1 p show ?thesis by simp
qed


subsection \<open>Numeric fields\<close>

lemma readRegex_valueRegex_value:
  "readRegex_valueRegex d = Some (v, r) \<Longrightarrow> v \<noteq> [] \<and> ch CHR '','' \<notin> set v \<and> ch CHR ''='' \<notin> set v"
proof -
  assume a: "readRegex_valueRegex d = Some (v, r)"
  then have v: "v = takeWhile (\<lambda>c. c \<noteq> ch CHR '','' \<and> c \<noteq> ch CHR ''='') d" and ne: "v \<noteq> []"
    by (auto simp: readRegex_valueRegex_def Let_def split: if_splits list.splits)
  have "\<forall>c\<in>set v. c \<noteq> ch CHR '','' \<and> c \<noteq> ch CHR ''=''"
    unfolding v using set_takeWhileD by fastforce
  with ne show ?thesis by auto
qed

lemma parseTag_value:
  "parseTag i w = Inr t \<Longrightarrow> tag_value t = Some v \<Longrightarrow>
     v \<noteq> [] \<and> ch CHR '','' \<notin> set v \<and> ch CHR ''='' \<notin> set v"
  by (auto simp: parseTag_def Let_def split: option.splits if_splits
      dest!: readRegex_valueRegex_value)

text \<open>
  C3. As stated, a value that is absent or not numeric gives the fallback, and never NaN or
  an abort. The fallback only stands in for an absent value. The claim as amended, for a
  tag that the tag parser produced: the media sequence number, the discontinuity sequence
  number, the count of skipped segments and the bitrate take the fallback (0, and -1 for the
  discontinuity sequence) when the value is absent, and \<^verbatim>\<open>Number\<close> of the value when it is
  present, which is NaN for a value that is no numeric literal; the duration of an
  \<^verbatim>\<open>EXTINF\<close> tag with a value is \<^verbatim>\<open>Number\<close> of the value; none of these updates fails.
\<close>

theorem C3_numeric_fields:
  assumes "parseTag i line = Inr t"
  shows "(tag_name t = js ''EXT-X-MEDIA-SEQUENCE'' \<longrightarrow>
            mediaSequence (updateTagIndexForTag' idx t)
              = (case tag_value t of None \<Rightarrow> numberOfInt 0 | Some v \<Rightarrow> Number v))
       \<and> (tag_name t = js ''EXT-X-DISCONTINUITY-SEQUENCE'' \<longrightarrow>
            discontinuitySequence (updateTagIndexForTag' idx t)
              = (case tag_value t of None \<Rightarrow> numberOfInt (- 1) | Some v \<Rightarrow> Number v))
       \<and> (tag_name t = js ''EXT-X-SKIP'' \<longrightarrow>
            skippedSegments (updateTagIndexForTag' idx t)
              = (case getAttributeValue t (js ''SKIPPED-SEGMENTS'') of
                   None \<Rightarrow> numberOfInt 0
                 | Some v \<Rightarrow> if v = [] then numberOfInt 0 else Number v))
       \<and> (tag_name t = js ''EXT-X-BITRATE'' \<and> \<not> truthy (bitrate c) \<longrightarrow>
            updateComputedForTag' c t
              = Inr (c\<lparr>bitrate := (case tag_value t of None \<Rightarrow> numberOfInt 0 | Some v \<Rightarrow> Number v)\<rparr>))
       \<and> (tag_name t = js ''EXTINF'' \<and> extinf c = None \<longrightarrow>
            (\<forall>v. tag_value t = Some v \<longrightarrow>
               updateComputedForTag' c t
                 = Inr (c\<lparr>extinf := Some t, extinfDuration := Number v\<rparr>)))"
proof -
  have nv: "\<And>v. tag_value t = Some v \<Longrightarrow> v \<noteq> [] \<and> takeWhile (\<lambda>c. c \<noteq> ch CHR '','') v = v"
    using parseTag_value [OF assms] by (auto simp: takeWhile_eq_all_conv)
  have no: "\<And>d. NumberOr (tag_value t) d = (case tag_value t of None \<Rightarrow> numberOfInt d | Some v \<Rightarrow> Number v)"
    using nv by (auto simp: NumberOr_def split: option.splits)
  have ms: "tag_name t = js ''EXT-X-MEDIA-SEQUENCE'' \<Longrightarrow>
      mediaSequence (updateTagIndexForTag' idx t) = NumberOr (tag_value t) 0"
    by (simp add: updateTagIndexForTag'_def)
  have ds: "tag_name t = js ''EXT-X-DISCONTINUITY-SEQUENCE'' \<Longrightarrow>
      discontinuitySequence (updateTagIndexForTag' idx t) = NumberOr (tag_value t) (- 1)"
    by (simp add: updateTagIndexForTag'_def)
  have sk: "tag_name t = js ''EXT-X-SKIP'' \<Longrightarrow>
      skippedSegments (updateTagIndexForTag' idx t)
        = (case getAttributeValue t (js ''SKIPPED-SEGMENTS'') of
             None \<Rightarrow> numberOfInt 0
           | Some v \<Rightarrow> if v = [] then numberOfInt 0 else Number v)"
    by (simp add: updateTagIndexForTag'_def Let_def split: option.splits)
  have br: "tag_name t = js ''EXT-X-BITRATE'' \<Longrightarrow> \<not> truthy (bitrate c) \<Longrightarrow>
      updateComputedForTag' c t = Inr (c\<lparr>bitrate := NumberOr (tag_value t) 0\<rparr>)"
    by (simp add: updateComputedForTag'_def)
  have ei: "tag_name t = js ''EXTINF'' \<Longrightarrow> extinf c = None \<Longrightarrow> tag_value t = Some v \<Longrightarrow>
      updateComputedForTag' c t = Inr (c\<lparr>extinf := Some t, extinfDuration := Number v\<rparr>)" for v
  proof -
    assume a: "tag_name t = js ''EXTINF''" "extinf c = None" "tag_value t = Some v"
    from nv [OF a(3)] have tw: "takeWhile (\<lambda>c. c \<noteq> ch CHR '','') v = v" by simp
    from a tw show ?thesis
      by (simp add: updateComputedForTag'_def Let_def takeWhile_eq_all_conv [THEN iffD2])
  qed
  from ms ds sk br ei show ?thesis unfolding no by blast
qed

text \<open>A media sequence number that is no number: the field is NaN.\<close>

theorem C3_counterexample:
  "map_sum id (mediaSequence \<circ> playlist \<circ> pl_computed) (parsePlaylist 0 doc_nan) = Inr NaN"
  by code_simp

theorem C3_witness:
  "mediaSequence (updateTagIndexForTag' createDefaultTagIndex'
      (projr (parseTag 0 (js ''#EXT-X-MEDIA-SEQUENCE:abc'')))) = NaN
   \<and> discontinuitySequence (updateTagIndexForTag' createDefaultTagIndex'
      (projr (parseTag 0 (js ''#EXT-X-DISCONTINUITY-SEQUENCE'')))) = numberOfInt (- 1)"
proof -
  let ?t = "\<lparr>tag_id = 0, tag_name = js ''EXT-X-MEDIA-SEQUENCE'', tag_attributes = [], tag_value = Some (js ''abc'')\<rparr>"
  let ?u = "\<lparr>tag_id = 0, tag_name = js ''EXT-X-DISCONTINUITY-SEQUENCE'', tag_attributes = [], tag_value = None\<rparr>"
  have t: "parseTag 0 (js ''#EXT-X-MEDIA-SEQUENCE:abc'') = Inr ?t" by code_simp
  have u: "parseTag 0 (js ''#EXT-X-DISCONTINUITY-SEQUENCE'') = Inr ?u" by code_simp
  have n: "Number (js ''abc'') = NaN" by code_simp
  from C3_numeric_fields [OF t, of createDefaultTagIndex'] n
  have 1: "mediaSequence (updateTagIndexForTag' createDefaultTagIndex' ?t) = NaN" by simp
  from C3_numeric_fields [OF u, of createDefaultTagIndex']
  have 2: "discontinuitySequence (updateTagIndexForTag' createDefaultTagIndex' ?u) = numberOfInt (- 1)" by simp
  from 1 2 t u show ?thesis by simp
qed

subsection \<open>Segment mode: one line\<close>

lemma segment_names:
  "(js ''EXT-X-MAP'') \<notin> set MEDIA_PLAYLIST_TAGS" "(js ''EXT-X-PART'') \<notin> set MEDIA_PLAYLIST_TAGS"
  "(js ''EXT-X-PRELOAD-HINT'') \<notin> set MEDIA_PLAYLIST_TAGS"
  by (simp_all add: MEDIA_PLAYLIST_TAGS_def)

lemma updateComputedForTag'_map_c:
  "updateComputedForTag' c t = Inr c' \<Longrightarrow>
     map_c c' = (if tag_name t = js ''EXT-X-MAP'' \<and> map_c c = None then Some t else map_c c)"
  by (auto simp: updateComputedForTag'_def Let_def split: if_splits option.splits)

lemma updateComputedForTag'_other:
  "tag_name t = js ''EXT-X-PART'' \<Longrightarrow> updateComputedForTag' c t = Inr c"
  "tag_name t = js ''EXT-X-PRELOAD-HINT'' \<Longrightarrow> updateComputedForTag' c t = Inr c"
  by (simp_all add: updateComputedForTag'_def)

lemma updateComputedForTag'_MAP:
  "tag_name t = js ''EXT-X-MAP'' \<Longrightarrow> \<exists>c'. updateComputedForTag' c t = Inr c'"
  by (simp add: updateComputedForTag'_def)

text \<open>One step on a directive line.\<close>

lemma segmentsStep_directive:
  assumes "startsWith l (js ''#EXT'')" and "segmentsStep st l = Inr st'"
  shows "\<exists>t. parseTag (s_globalId st) l = Inr t
           \<and> s_globalId st' = Suc (s_globalId st)
           \<and> s_segments st' = s_segments st
           \<and> s_gapCount st' = s_gapCount st
           \<and> s_lastExtinfDuration st' = s_lastExtinfDuration st
           \<and> s_partialSegmentTags st' = s_partialSegmentTags st @ filter isPartialTag [t]
           \<and> s_segmentTags st' = s_segmentTags st @ filter isSegmentScoped [t]
           \<and> s_currentMapTag st' = (case initSegmentTag t of Some m \<Rightarrow> Some m | None \<Rightarrow> s_currentMapTag st)
           \<and> map_c (s_computed st') = (case map_c (s_computed st) of Some m \<Rightarrow> Some m | None \<Rightarrow> initSegmentTag t)"
proof -
  from assms obtain t where t: "parseTag (s_globalId st) l = Inr t"
    by (auto simp: segmentsStep_def split: sum.splits)
  show ?thesis
  proof (cases "tag_name t \<in> set MEDIA_PLAYLIST_TAGS")
    case True
    then have "\<not> isPartialTag t" "\<not> isSegmentScoped t" "initSegmentTag t = None"
      using segment_names by (auto simp: isPartialTag_def isSegmentScoped_def initSegmentTag_def)
    moreover have "st' = st\<lparr>s_globalId := s_globalId st + 1,
          s_playlistTags := s_playlistTags st @ [t],
          s_tagIndex := updateTagIndexForTag' (s_tagIndex st) t\<rparr>"
      using assms t True by (simp add: segmentsStep_def Let_def)
    ultimately show ?thesis using t by (auto split: option.splits)
  next
    case nm: False
    consider (m) "tag_name t = js ''EXT-X-MAP''" | (p) "tag_name t = js ''EXT-X-PART''"
      | (hp) "tag_name t = js ''EXT-X-PRELOAD-HINT''" "getAttributeValue t (js ''TYPE'') = Some (js ''PART'')"
      | (hm) "tag_name t = js ''EXT-X-PRELOAD-HINT''" "getAttributeValue t (js ''TYPE'') = Some (js ''MAP'')"
      | (ho) "tag_name t = js ''EXT-X-PRELOAD-HINT''" "getAttributeValue t (js ''TYPE'') \<noteq> Some (js ''PART'')"
             "getAttributeValue t (js ''TYPE'') \<noteq> Some (js ''MAP'')"
      | (o) "tag_name t \<noteq> js ''EXT-X-MAP''" "tag_name t \<noteq> js ''EXT-X-PART''" "tag_name t \<noteq> js ''EXT-X-PRELOAD-HINT''"
      by blast
    then show ?thesis
    proof cases
      case m
      then obtain c' where c': "updateComputedForTag' (s_computed st) t = Inr c'"
        using updateComputedForTag'_MAP by blast
      have "st' = st\<lparr>s_globalId := s_globalId st + 1, s_currentMapTag := Some t, s_computed := c'\<rparr>"
        using assms t nm m c' by (simp add: segmentsStep_def Let_def)
      moreover have "\<not> isPartialTag t" "\<not> isSegmentScoped t" "initSegmentTag t = Some t"
        using m by (auto simp: isPartialTag_def isSegmentScoped_def initSegmentTag_def)
      ultimately show ?thesis using t updateComputedForTag'_map_c [OF c'] m
        by (auto split: option.splits)
    next
      case p
      have "st' = st\<lparr>s_globalId := s_globalId st + 1,
           s_partialSegmentTags := s_partialSegmentTags st @ [t]\<rparr>"
        using assms t nm p by (simp add: segmentsStep_def Let_def updateComputedForTag'_other)
      moreover have "isPartialTag t" "\<not> isSegmentScoped t" "initSegmentTag t = None"
        using p by (auto simp: isPartialTag_def isSegmentScoped_def initSegmentTag_def)
      ultimately show ?thesis using t by (auto split: option.splits)
    next
      case hp
      have "st' = st\<lparr>s_globalId := s_globalId st + 1,
           s_partialSegmentTags := s_partialSegmentTags st @ [t]\<rparr>"
        using assms t nm hp by (simp add: segmentsStep_def Let_def updateComputedForTag'_other)
      moreover have "isPartialTag t" "\<not> isSegmentScoped t" "initSegmentTag t = None"
        using hp by (auto simp: isPartialTag_def isSegmentScoped_def initSegmentTag_def)
      ultimately show ?thesis using t by (auto split: option.splits)
    next
      case hm
      let ?t = "setName t (js ''EXT-X-MAP'')"
      have n: "tag_name ?t = js ''EXT-X-MAP''" by (simp add: setName_def)
      then obtain c' where c': "updateComputedForTag' (s_computed st) ?t = Inr c'"
        using updateComputedForTag'_MAP by blast
      have "st' = st\<lparr>s_globalId := s_globalId st + 1, s_currentMapTag := Some ?t, s_computed := c'\<rparr>"
        using assms t nm hm c' by (simp add: segmentsStep_def Let_def)
      moreover have "\<not> isPartialTag t" "\<not> isSegmentScoped t" "initSegmentTag t = Some ?t"
        using hm by (auto simp: isPartialTag_def isSegmentScoped_def initSegmentTag_def)
      ultimately show ?thesis using t updateComputedForTag'_map_c [OF c'] n
        by (auto split: option.splits)
    next
      case ho
      have "st' = st\<lparr>s_globalId := s_globalId st + 1\<rparr>"
        using assms t nm ho by (simp add: segmentsStep_def Let_def updateComputedForTag'_other)
      moreover have "\<not> isPartialTag t" "\<not> isSegmentScoped t" "initSegmentTag t = None"
        using ho by (auto simp: isPartialTag_def isSegmentScoped_def initSegmentTag_def)
      ultimately show ?thesis using t by (auto split: option.splits)
    next
      case o
      from assms t nm o obtain c' where c': "updateComputedForTag' (s_computed st) t = Inr c'"
        and "st' = st\<lparr>s_globalId := s_globalId st + 1,
           s_segmentTags := s_segmentTags st @ [t], s_computed := c'\<rparr>"
        by (auto simp: segmentsStep_def Let_def split: sum.splits)
      moreover have "\<not> isPartialTag t" "isSegmentScoped t" "initSegmentTag t = None"
        using o nm by (auto simp: isPartialTag_def isSegmentScoped_def initSegmentTag_def)
      ultimately show ?thesis using t updateComputedForTag'_map_c [OF c'] o
        by (auto split: option.splits)
    qed
  qed
qed

lemma segmentsStep_comment:
  "\<not> startsWith l (js ''#EXT'') \<Longrightarrow> isComment l \<Longrightarrow> segmentsStep st l = Inr st"
  by (simp add: segmentsStep_def)

text \<open>One step on a URI line.\<close>

lemma segmentsStep_uri:
  assumes "isUriLine l"
  shows "segmentsStep st l =
     Inr (st\<lparr>s_segments := s_segments st @
              [newSegment (trim l)
                 (s_segmentTags st @ (case s_currentMapTag st of Some m \<Rightarrow> [m] | None \<Rightarrow> []))
                 (case s_currentMapTag st of
                    Some m \<Rightarrow> if map_c (s_computed st) = None
                              then (s_computed st)\<lparr>map_c := Some m, mapId := Some (tag_id m)\<rparr>
                              else s_computed st
                  | None \<Rightarrow> s_computed st)
                 (s_partialSegmentTags st)],
            s_segmentTags := [], s_partialSegmentTags := [],
            s_lastExtinfDuration := (if extinf (s_computed st) \<noteq> None
                                     then Some (extinfDuration (s_computed st))
                                     else s_lastExtinfDuration st),
            s_gapCount := (if gap (s_computed st) \<noteq> None then s_gapCount st + 1 else s_gapCount st),
            s_computed := createDefaultComputed'\<rparr>)"
  using assms by (cases "s_currentMapTag st") (simp_all add: segmentsStep_def isUriLine_def Let_def)

subsection \<open>Segment mode: the loop\<close>

lemma lastOr_append: "lastOr a (xs @ ys) = lastOr (lastOr a xs) ys"
  by (induction xs arbitrary: a) auto

lemma lastOr_last: "lastOr a xs = (if xs = [] then a else Some (last xs))"
  by (induction xs arbitrary: a) auto

lemma segmentsLoop_append:
  "segmentsLoop (xs @ ys) st =
     (case segmentsLoop xs st of Inl e \<Rightarrow> Inl e | Inr st' \<Rightarrow> segmentsLoop ys st')"
  by (induction xs arbitrary: st) (auto split: sum.splits)

lemma line_cases:
  obtains (directive) "startsWith l (js ''#EXT'')" "\<not> isUriLine l"
  | (comment) "\<not> startsWith l (js ''#EXT'')" "isComment l" "\<not> isUriLine l"
  | (uri) "isUriLine l" "\<not> startsWith l (js ''#EXT'')"
  by (auto simp: isUriLine_def)

lemma directiveTags_Cons:
  "startsWith l (js ''#EXT'') \<Longrightarrow> parseTag g l = Inr t \<Longrightarrow>
     directiveTags g (l # ls) = t # directiveTags (Suc g) ls"
  "\<not> startsWith l (js ''#EXT'') \<Longrightarrow> directiveTags g (l # ls) = directiveTags g ls"
  by simp_all

lemma initTags_Cons:
  "startsWith l (js ''#EXT'') \<Longrightarrow> parseTag g l = Inr t \<Longrightarrow>
     initTags g (l # ls) = (case initSegmentTag t of Some m \<Rightarrow> [m] | None \<Rightarrow> []) @ initTags (Suc g) ls"
  "\<not> startsWith l (js ''#EXT'') \<Longrightarrow> initTags g (l # ls) = initTags g ls"
  by (simp_all add: initTags_def List.map_filter_simps split: option.splits)

lemma numDirectives_Cons:
  "startsWith l (js ''#EXT'') \<Longrightarrow> numDirectives (l # ls) = Suc (numDirectives ls)"
  "\<not> startsWith l (js ''#EXT'') \<Longrightarrow> numDirectives (l # ls) = numDirectives ls"
  by (simp_all add: numDirectives_def)

lemma numDirectives_append: "numDirectives (xs @ ys) = numDirectives xs + numDirectives ys"
  by (simp add: numDirectives_def)

text \<open>Over any lines: the id counter, the carried map and the segment list.\<close>

lemma segmentsLoop_general:
  assumes "segmentsLoop ls st = Inr st'"
  shows "s_globalId st' = s_globalId st + numDirectives ls
       \<and> s_currentMapTag st' = lastOr (s_currentMapTag st) (initTags (s_globalId st) ls)
       \<and> (\<exists>ext. s_segments st' = s_segments st @ ext
              \<and> length ext = length (filter isUriLine ls)
              \<and> map verbatimSegmentUri ext = map trim (filter isUriLine ls))"
  using assms
proof (induction ls arbitrary: st)
  case Nil
  then show ?case by (simp add: numDirectives_def initTags_def List.map_filter_simps)
next
  case (Cons l ls)
  from Cons.prems obtain st1 where s1: "segmentsStep st l = Inr st1" and l1: "segmentsLoop ls st1 = Inr st'"
    by (auto split: sum.splits)
  note ih = Cons.IH [OF l1]
  show ?case
  proof (cases l rule: line_cases)
    case directive
    from segmentsStep_directive [OF directive(1) s1] obtain t where
      t: "parseTag (s_globalId st) l = Inr t" "s_globalId st1 = Suc (s_globalId st)"
         "s_segments st1 = s_segments st"
         "s_currentMapTag st1 = (case initSegmentTag t of Some m \<Rightarrow> Some m | None \<Rightarrow> s_currentMapTag st)"
      by blast
    with ih directive show ?thesis
      by (auto simp: numDirectives_Cons initTags_Cons(1) [OF directive(1) t(1)] split: option.splits)
  next
    case comment
    with s1 have "st1 = st" by (simp add: segmentsStep_comment)
    with ih comment show ?thesis by (simp add: numDirectives_Cons initTags_Cons)
  next
    case uri
    from segmentsStep_uri [OF uri(1), of st] s1
    have "s_globalId st1 = s_globalId st" "s_currentMapTag st1 = s_currentMapTag st"
      "\<exists>seg. s_segments st1 = s_segments st @ [seg] \<and> verbatimSegmentUri seg = trim l"
      by (auto simp: newSegment_def)
    with ih uri show ?thesis by (auto simp: numDirectives_Cons initTags_Cons)
  qed
qed

text \<open>Over a run of lines without URI line: the pending state of the segment.\<close>

lemma segmentsLoop_run:
  assumes "segmentsLoop run st = Inr st'" and "\<forall>l\<in>set run. \<not> isUriLine l"
  shows "s_segments st' = s_segments st
       \<and> s_gapCount st' = s_gapCount st
       \<and> s_partialSegmentTags st'
           = s_partialSegmentTags st @ filter isPartialTag (directiveTags (s_globalId st) run)
       \<and> s_segmentTags st'
           = s_segmentTags st @ filter isSegmentScoped (directiveTags (s_globalId st) run)
       \<and> map_c (s_computed st')
           = (case map_c (s_computed st) of
                Some m \<Rightarrow> Some m
              | None \<Rightarrow> (case initTags (s_globalId st) run of [] \<Rightarrow> None | m # _ \<Rightarrow> Some m))"
  using assms
proof (induction run arbitrary: st)
  case Nil
  then show ?case by (simp add: initTags_def List.map_filter_simps split: option.splits)
next
  case (Cons l ls)
  from Cons.prems obtain st1 where s1: "segmentsStep st l = Inr st1" and l1: "segmentsLoop ls st1 = Inr st'"
    by (auto split: sum.splits)
  from Cons.prems have nu: "\<forall>l\<in>set ls. \<not> isUriLine l" by simp
  note ih = Cons.IH [OF l1 nu]
  show ?case
  proof (cases l rule: line_cases)
    case directive
    from segmentsStep_directive [OF directive(1) s1] obtain t where
      t: "parseTag (s_globalId st) l = Inr t" "s_globalId st1 = Suc (s_globalId st)"
         "s_segments st1 = s_segments st" "s_gapCount st1 = s_gapCount st"
         "s_partialSegmentTags st1 = s_partialSegmentTags st @ filter isPartialTag [t]"
         "s_segmentTags st1 = s_segmentTags st @ filter isSegmentScoped [t]"
         "map_c (s_computed st1) = (case map_c (s_computed st) of Some m \<Rightarrow> Some m | None \<Rightarrow> initSegmentTag t)"
      by blast
    have d: "directiveTags (s_globalId st) (l # ls) = t # directiveTags (s_globalId st1) ls"
      using directive t by simp
    have i: "initTags (s_globalId st) (l # ls)
        = (case initSegmentTag t of Some m \<Rightarrow> [m] | None \<Rightarrow> []) @ initTags (s_globalId st1) ls"
      using initTags_Cons(1) [OF directive(1) t(1)] t(2) by simp
    show ?thesis
      unfolding d i using ih t(3-7)
      by (auto split: option.splits)
  next
    case comment
    with s1 have "st1 = st" by (simp add: segmentsStep_comment)
    with ih comment show ?thesis by (simp add: initTags_Cons(2) cong: option.case_cong)
  next
    case uri
    with Cons.prems show ?thesis by simp
  qed
qed

text \<open>At a segment boundary the pending state is fresh.\<close>

lemma segmentsLoop_boundary:
  assumes "segmentsLoop pre st = Inr st'" and "pre \<noteq> []" and "isUriLine (last pre)"
  shows "s_segmentTags st' = [] \<and> s_partialSegmentTags st' = []
       \<and> s_computed st' = createDefaultComputed'"
proof -
  from assms(2) have "pre = butlast pre @ [last pre]" by simp
  with assms(1) have "segmentsLoop (butlast pre @ [last pre]) st = Inr st'" by simp
  then obtain st1 where "segmentsStep st1 (last pre) = Inr st'"
    unfolding segmentsLoop_append by (auto split: sum.splits)
  with segmentsStep_uri [OF assms(3), of st1] show ?thesis by auto
qed


lemma tagName_startsWith: "tagName l = Some n \<Longrightarrow> startsWith l (js ''#EXT'')"
  by (auto simp: tagName_def tagBlocks_def split: if_splits)

lemma segmentDirective_not_comment: "segmentDirective l \<Longrightarrow> \<not> isComment l"
  by (auto simp: segmentDirective_iff isComment_def dest: tagName_startsWith)

text \<open>From the scan into segment mode.\<close>

lemma scanLines_segment_mode:
  assumes "playlistPart ls1" and "segmentPart ls2"
    and "scanLines (ls1 @ ls2)
           \<lparr>p_playlistType = MASTER, p_typeDetected = False, p_tags = [],
            p_tagIndex = createDefaultTagIndex', p_skip = True, p_globalId = g\<rparr> = Inr p"
  shows "\<exists>tags idx s. parseSegments' ls2 tags idx (g + length (handed True ls1) + 1) = Inr s
           \<and> pl_segments p = Some (s_segments s) \<and> pl_type p = MEDIA
           \<and> segments (pl_computed p) = analysis s"
proof -
  let ?st0 = "\<lparr>p_playlistType = MASTER, p_typeDetected = False, p_tags = [],
            p_tagIndex = createDefaultTagIndex', p_skip = True, p_globalId = g\<rparr>"
  from assms(1) have "\<forall>x\<in>set (handed (p_skip ?st0) ls1). nonSegmentDirective x"
    and ns: "\<not> skipAfter True ls1"
    by (simp_all add: playlistPart_def list_all_iff)
  from scan_prefix [OF this(1), of ls2] obtain st' where
    st': "scanLines (ls1 @ ls2) ?st0 = scanLines ls2 st'" "p_skip st' = skipAfter (p_skip ?st0) ls1"
      "p_globalId st' = p_globalId ?st0 + length (handed (p_skip ?st0) ls1)" by blast
  from assms(2) obtain l rest where ls2: "ls2 = l # rest" and sd: "segmentDirective l"
    by (cases ls2) (auto simp: segmentPart_def)
  from sd obtain n where n: "tagName l = Some n" "n \<in> set SEGMENT_TAGS"
    by (auto simp: segmentDirective_iff)
  then obtain tag where t: "parseTag (p_globalId st') l = Inr tag" "tag_name tag = n"
    using parseTag_Some by blast
  define st1 where "st1 = detectType (st'\<lparr>p_globalId := p_globalId st' + 1\<rparr>) tag"
  have g1: "p_globalId st1 = g + length (handed True ls1) + 1"
    using st'(3) by (simp add: st1_def detectType_def)
  have "scanLines (l # rest) st' =
            (if p_playlistType st1 \<noteq> MEDIA then Inl HLS_INVALID_PLAYLIST_HIERARCHY
             else (case parseSegments' (l # rest) (p_tags st1) (p_tagIndex st1) (p_globalId st1) of
                     Inl e \<Rightarrow> Inl e
                   | Inr s \<Rightarrow> Inr (newPlaylist (p_playlistType st1) (s_playlistTags s)
                                  \<lparr>playlist = s_tagIndex s, segments = analysis s\<rparr>
                                  (Some (s_segments s)))))"
    unfolding st1_def using st'(2) ns segmentDirective_not_comment [OF sd] t n
    by (simp add: Let_def cong: sum.case_cong)
  with assms(3) st'(1) ls2 obtain s where
    "parseSegments' (l # rest) (p_tags st1) (p_tagIndex st1) (p_globalId st1) = Inr s"
    "p = newPlaylist MEDIA (s_playlistTags s) \<lparr>playlist = s_tagIndex s, segments = analysis s\<rparr> (Some (s_segments s))"
    by (auto split: if_splits sum.splits)
  with g1 ls2 show ?thesis by (auto simp: newPlaylist_def)
qed

lemma parsePlaylist_segment_mode:
  assumes "parsePlaylist g str = Inr p" and "linesOf str = ls1 @ ls2"
    and "playlistPart ls1" and "segmentPart ls2"
  shows "\<exists>tags idx s. parseSegments' ls2 tags idx (g + length (handed True ls1) + 1) = Inr s
           \<and> pl_segments p = Some (s_segments s) \<and> pl_type p = MEDIA
           \<and> segments (pl_computed p) = analysis s"
proof -
  from assms(1,2) have "scanLines (ls1 @ ls2)
           \<lparr>p_playlistType = MASTER, p_typeDetected = False, p_tags = [],
            p_tagIndex = createDefaultTagIndex', p_skip = True, p_globalId = g\<rparr> = Inr p"
    by (simp add: parsePlaylist_def Let_def split: if_splits)
  from scanLines_segment_mode [OF assms(3,4) this] show ?thesis .
qed

text \<open>The state of the loop after the lines up to a segment boundary.\<close>

lemma segmentsLoop_to_boundary:
  assumes "segmentsLoop pre st = Inr st1" and "pre = [] \<or> isUriLine (last pre)"
    and "s_segmentTags st = []" "s_partialSegmentTags st = []" "s_computed st = createDefaultComputed'"
  shows "s_segmentTags st1 = [] \<and> s_partialSegmentTags st1 = []
       \<and> s_computed st1 = createDefaultComputed'"
proof (cases "pre = []")
  case True
  with assms show ?thesis by simp
next
  case False
  with assms(2) have "isUriLine (last pre)" by simp
  from segmentsLoop_boundary [OF assms(1) False this] show ?thesis .
qed

lemma segmentsLoop_appendE:
  assumes "segmentsLoop (xs @ ys) st = Inr st'"
  obtains st1 where "segmentsLoop xs st = Inr st1" "segmentsLoop ys st1 = Inr st'"
  using assms unfolding segmentsLoop_append by (auto split: sum.splits)

lemma parseSegments'_dangling:
  assumes "parseSegments' (pre @ tail) tags idx g = Inr s"
    and "pre = [] \<or> isUriLine (last pre)"
    and "\<forall>l\<in>set tail. \<not> isUriLine l"
    and "filter isPartialTag (directiveTags (g + numDirectives pre) tail) \<noteq> []"
  shows "\<exists>segs final. s_segments s = segs @ [final]
       \<and> length segs = length (filter isUriLine pre)
       \<and> verbatimSegmentUri final = []
       \<and> partialSegments final = filter isPartialTag (directiveTags (g + numDirectives pre) tail)
       \<and> seg_tags final = filter isSegmentScoped (directiveTags (g + numDirectives pre) tail)
            @ (case carriedMap g (pre @ tail) of Some m \<Rightarrow> [m] | None \<Rightarrow> [])
       \<and> updateComputedForTags createDefaultComputed' (seg_tags final) = Inr (seg_computed final)"
proof -
  let ?init = "\<lparr>s_segments = [], s_segmentTags = [], s_partialSegmentTags = [],
              s_currentMapTag = None, s_gapCount = 0, s_lastExtinfDuration = None,
              s_computed = createDefaultComputed', s_playlistTags = tags,
              s_tagIndex = idx, s_globalId = g\<rparr>"
  from assms(1) obtain st2 where l2: "segmentsLoop (pre @ tail) ?init = Inr st2" and f: "finishSegments st2 = Inr s"
    by (auto simp: parseSegments'_def split: sum.splits)
  from l2 obtain st1 where l1: "segmentsLoop pre ?init = Inr st1" and lt: "segmentsLoop tail st1 = Inr st2"
    by (rule segmentsLoop_appendE)
  from segmentsLoop_general [OF l1] obtain ext where
    g1: "s_globalId st1 = g + numDirectives pre" and e: "s_segments st1 = ext" "length ext = length (filter isUriLine pre)"
    by auto
  from segmentsLoop_to_boundary [OF l1 assms(2)] have b: "s_segmentTags st1 = []" "s_partialSegmentTags st1 = []"
    by simp_all
  from segmentsLoop_run [OF lt assms(3)] g1 b e have
    r: "s_segments st2 = ext"
       "s_partialSegmentTags st2 = filter isPartialTag (directiveTags (g + numDirectives pre) tail)"
       "s_segmentTags st2 = filter isSegmentScoped (directiveTags (g + numDirectives pre) tail)"
    by simp_all
  from segmentsLoop_general [OF l2] have c: "s_currentMapTag st2 = carriedMap g (pre @ tail)"
    by (simp add: carriedMap_def)
  define segmentTags where "segmentTags = s_segmentTags st2 @ (case s_currentMapTag st2 of Some m \<Rightarrow> [m] | None \<Rightarrow> [])"
  have st: "(case s_currentMapTag st2 of Some m \<Rightarrow> s_segmentTags st2 @ [m] | None \<Rightarrow> s_segmentTags st2) = segmentTags"
    by (simp add: segmentTags_def split: option.splits)
  from f assms(4) r(2) obtain computed where
    c1: "updateComputedForTags createDefaultComputed' segmentTags = Inr computed"
    and s: "s = st2\<lparr>s_segmentTags := segmentTags,
                   s_segments := s_segments st2 @ [newSegment [] segmentTags computed (s_partialSegmentTags st2)]\<rparr>"
    unfolding finishSegments_def Let_def st by (auto split: sum.splits)
  show ?thesis
    by (intro exI [of _ ext] exI [of _ "newSegment [] segmentTags computed (s_partialSegmentTags st2)"])
       (use c1 [unfolded segmentTags_def] in \<open>simp add: s r e newSegment_def segmentTags_def c\<close>)
qed


lemma directiveTags_append:
  "directiveTags g (xs @ ys) = directiveTags g xs @ directiveTags (g + numDirectives xs) ys"
  by (induction xs arbitrary: g) (simp_all add: numDirectives_def)

lemma initTags_append:
  "initTags g (xs @ ys) = initTags g xs @ initTags (g + numDirectives xs) ys"
  by (simp add: initTags_def directiveTags_append List.map_filter_def)

lemma carriedMap_append:
  "carriedMap g (xs @ ys) = lastOr (carriedMap g xs) (initTags (g + numDirectives xs) ys)"
  by (simp add: carriedMap_def initTags_append lastOr_append)

lemma initSegmentTag_name: "initSegmentTag t = Some m \<Longrightarrow> tag_name m = js ''EXT-X-MAP''"
  by (auto simp: initSegmentTag_def setName_def split: if_splits)

lemma initTags_names: "m \<in> set (initTags g ls) \<Longrightarrow> tag_name m = js ''EXT-X-MAP''"
  by (auto simp: initTags_def List.map_filter_def dest: initSegmentTag_name)

lemma carriedMap_name: "carriedMap g ls = Some m \<Longrightarrow> tag_name m = js ''EXT-X-MAP''"
  using initTags_names [of m g ls] by (auto simp: carriedMap_def lastOr_last split: if_splits)

lemma updateComputedForTags_append:
  "updateComputedForTags c (xs @ ys) =
     (case updateComputedForTags c xs of Inl e \<Rightarrow> Inl e | Inr c' \<Rightarrow> updateComputedForTags c' ys)"
  by (induction xs arbitrary: c) (auto split: sum.splits)

lemma updateComputedForTags_no_map:
  "updateComputedForTags c ts = Inr c' \<Longrightarrow> \<forall>t\<in>set ts. tag_name t \<noteq> js ''EXT-X-MAP'' \<Longrightarrow>
     map_c c' = map_c c"
proof (induction ts arbitrary: c)
  case Nil
  then show ?case by simp
next
  case (Cons t ts)
  from Cons.prems(1) obtain c1 where c1: "updateComputedForTag' c t = Inr c1"
    and r: "updateComputedForTags c1 ts = Inr c'" by (auto split: sum.splits)
  from updateComputedForTag'_map_c [OF c1] Cons.prems(2) have "map_c c1 = map_c c" by simp
  with Cons.IH [OF r] Cons.prems(2) show ?case by simp
qed

text \<open>The computed view that is derived from scratch has the carried map.\<close>

lemma scratch_computed_map:
  assumes "updateComputedForTags createDefaultComputed'
             (filter isSegmentScoped ts @ (case cm of Some m \<Rightarrow> [m] | None \<Rightarrow> [])) = Inr c"
    and "\<And>m. cm = Some m \<Longrightarrow> tag_name m = js ''EXT-X-MAP''"
  shows "map_c c = cm"
proof -
  from assms(1) obtain c1 where
    c1: "updateComputedForTags createDefaultComputed' (filter isSegmentScoped ts) = Inr c1"
    and c2: "updateComputedForTags c1 (case cm of Some m \<Rightarrow> [m] | None \<Rightarrow> []) = Inr c"
    unfolding updateComputedForTags_append by (auto split: sum.splits)
  have "\<forall>t\<in>set (filter isSegmentScoped ts). tag_name t \<noteq> js ''EXT-X-MAP''"
    by (simp add: isSegmentScoped_def)
  from updateComputedForTags_no_map [OF c1 this] have n: "map_c c1 = None"
    by (simp add: createDefaultComputed'_def)
  show ?thesis
  proof (cases cm)
    case None
    with c2 n show ?thesis by simp
  next
    case (Some m)
    with c2 obtain "updateComputedForTag' c1 m = Inr c" by (auto split: sum.splits)
    from updateComputedForTag'_map_c [OF this] n assms(2) [OF Some] Some show ?thesis by simp
  qed
qed

lemma finishSegments_prefix:
  "finishSegments st = Inr s \<Longrightarrow> \<exists>ext. s_segments s = s_segments st @ ext"
  by (auto simp: finishSegments_def Let_def split: if_splits sum.splits)

text \<open>The map of the segment that a URI line emits.\<close>

lemma parseSegments'_map:
  assumes "parseSegments' (pre @ run @ u # post) tags idx g = Inr s"
    and "pre = [] \<or> isUriLine (last pre)"
    and "\<forall>l\<in>set run. \<not> isUriLine l"
    and "isUriLine u"
  shows "length (filter isUriLine pre) < length (s_segments s)
       \<and> verbatimSegmentUri (s_segments s ! length (filter isUriLine pre)) = trim u
       \<and> map_c (seg_computed (s_segments s ! length (filter isUriLine pre)))
           = (case initTags (g + numDirectives pre) run of
                m # _ \<Rightarrow> Some m
              | [] \<Rightarrow> carriedMap g pre)"
proof -
  let ?init = "\<lparr>s_segments = [], s_segmentTags = [], s_partialSegmentTags = [],
              s_currentMapTag = None, s_gapCount = 0, s_lastExtinfDuration = None,
              s_computed = createDefaultComputed', s_playlistTags = tags,
              s_tagIndex = idx, s_globalId = g\<rparr>"
  from assms(1) obtain st4 where l4: "segmentsLoop (pre @ run @ u # post) ?init = Inr st4"
    and f: "finishSegments st4 = Inr s"
    by (auto simp: parseSegments'_def split: sum.splits)
  from l4 obtain st1 where l1: "segmentsLoop pre ?init = Inr st1"
    and l4': "segmentsLoop (run @ u # post) st1 = Inr st4"
    by (rule segmentsLoop_appendE)
  from l4' obtain st2 where l2: "segmentsLoop run st1 = Inr st2"
    and l4'': "segmentsLoop (u # post) st2 = Inr st4"
    by (rule segmentsLoop_appendE)
  from l4'' obtain st3 where s3: "segmentsStep st2 u = Inr st3" and l3: "segmentsLoop post st3 = Inr st4"
    by (auto split: sum.splits)
  from segmentsLoop_general [OF l1] obtain ext1 where
    g1: "s_globalId st1 = g + numDirectives pre" and e1: "s_segments st1 = ext1"
      "length ext1 = length (filter isUriLine pre)"
    and m1: "s_currentMapTag st1 = carriedMap g pre"
    by (auto simp: carriedMap_def)
  from segmentsLoop_to_boundary [OF l1 assms(2)] have b: "s_computed st1 = createDefaultComputed'"
    by simp
  from segmentsLoop_run [OF l2 assms(3)] g1 b e1 have
    r: "s_segments st2 = ext1"
       "map_c (s_computed st2) = (case initTags (g + numDirectives pre) run of [] \<Rightarrow> None | m # _ \<Rightarrow> Some m)"
    by (simp_all add: createDefaultComputed'_def)
  from segmentsLoop_general [OF l2] g1 m1 have
    m2: "s_currentMapTag st2 = lastOr (carriedMap g pre) (initTags (g + numDirectives pre) run)"
    by simp
  define seg where "seg = newSegment (trim u)
                 (s_segmentTags st2 @ (case s_currentMapTag st2 of Some m \<Rightarrow> [m] | None \<Rightarrow> []))
                 (case s_currentMapTag st2 of
                    Some m \<Rightarrow> if map_c (s_computed st2) = None
                              then (s_computed st2)\<lparr>map_c := Some m, mapId := Some (tag_id m)\<rparr>
                              else s_computed st2
                  | None \<Rightarrow> s_computed st2)
                 (s_partialSegmentTags st2)"
  from segmentsStep_uri [OF assms(4), of st2] s3 r(1) have e3: "s_segments st3 = ext1 @ [seg]"
    by (auto simp: seg_def)
  from segmentsLoop_general [OF l3] e3 obtain ext3 where e4: "s_segments st4 = ext1 @ [seg] @ ext3"
    by auto
  from finishSegments_prefix [OF f] e4 obtain ext4 where e5: "s_segments s = ext1 @ [seg] @ ext3 @ ext4"
    by auto
  have nth: "s_segments s ! length (filter isUriLine pre) = seg"
    unfolding e5 e1(2) [symmetric] by simp
  have len: "length (filter isUriLine pre) < length (s_segments s)"
    unfolding e5 e1(2) [symmetric] by simp
  have mp: "map_c (seg_computed seg)
           = (case initTags (g + numDirectives pre) run of
                m # _ \<Rightarrow> Some m
              | [] \<Rightarrow> carriedMap g pre)"
  proof (cases "initTags (g + numDirectives pre) run")
    case Nil
    with r(2) m2 show ?thesis
      by (cases "carriedMap g pre") (simp_all add: seg_def newSegment_def)
  next
    case (Cons m ms)
    with m2 obtain m' where "s_currentMapTag st2 = Some m'" by (simp add: lastOr_last)
    with r(2) Cons show ?thesis by (simp add: seg_def newSegment_def)
  qed
  from nth len mp show ?thesis by (simp add: seg_def newSegment_def)
qed

subsection \<open>The segment list of a playlist\<close>

text \<open>The result of a scan: without segment mode the segment list is empty, and with
  segment mode the playlist has the type MEDIA and the segments of the segment parser.\<close>

lemma scanLines_segmentLines:
  assumes "scanLines ls st = Inr p"
  shows "(segmentLines (p_skip st) ls = [] \<longrightarrow>
            pl_segments p = Some [] \<and> segments (pl_computed p) = createDefaultSegmentsComputed')
       \<and> (segmentLines (p_skip st) ls \<noteq> [] \<longrightarrow>
            pl_type p = MEDIA
            \<and> (\<exists>tags idx g' s.
                  parseSegments' (segmentLines (p_skip st) ls) tags idx g' = Inr s
                  \<and> pl_segments p = Some (s_segments s)
                  \<and> segments (pl_computed p) = analysis s))"
  using assms
proof (induction ls arbitrary: st)
  case Nil
  then show ?case by (auto simp: newPlaylist_def)
next
  case (Cons l ls)
  show ?case
  proof (cases "isComment l \<or> p_skip st")
    case True
    with Cons.prems have "scanLines ls (st\<lparr>p_skip := False\<rparr>) = Inr p" by simp
    moreover have "segmentLines (p_skip st) (l # ls) = segmentLines (p_skip (st\<lparr>p_skip := False\<rparr>)) ls"
      using True by simp
    ultimately show ?thesis using Cons.IH [of "st\<lparr>p_skip := False\<rparr>"] by simp
  next
    case False
    with Cons.prems obtain tag where t: "parseTag (p_globalId st) l = Inr tag"
      by (auto split: sum.splits)
    from parseTag_Inr [OF t] have tn: "tagName l = Some (tag_name tag)" by simp
    define st1 where "st1 = detectType (st\<lparr>p_globalId := p_globalId st + 1\<rparr>) tag"
    show ?thesis
    proof (cases "tag_name tag \<in> set SEGMENT_TAGS")
      case True
      then have sd: "segmentDirective l" using tn by (simp add: segmentDirective_iff)
      have sl: "segmentLines (p_skip st) (l # ls) = l # ls" using False sd by simp
      have "scanLines (l # ls) st =
            (if p_playlistType st1 \<noteq> MEDIA then Inl HLS_INVALID_PLAYLIST_HIERARCHY
             else (case parseSegments' (l # ls) (p_tags st1) (p_tagIndex st1) (p_globalId st1) of
                     Inl e \<Rightarrow> Inl e
                   | Inr s \<Rightarrow> Inr (newPlaylist (p_playlistType st1) (s_playlistTags s)
                                  \<lparr>playlist = s_tagIndex s, segments = analysis s\<rparr>
                                  (Some (s_segments s)))))"
        unfolding st1_def using False t True by (simp add: Let_def cong: sum.case_cong)
      with Cons.prems obtain s where
        "parseSegments' (l # ls) (p_tags st1) (p_tagIndex st1) (p_globalId st1) = Inr s"
        "p = newPlaylist MEDIA (s_playlistTags s)
               \<lparr>playlist = s_tagIndex s, segments = analysis s\<rparr> (Some (s_segments s))"
        by (auto split: if_splits sum.splits)
      then show ?thesis unfolding sl by (auto simp: newPlaylist_def)
    next
      case seg: False
      then have nsd: "\<not> segmentDirective l" using tn by (simp add: segmentDirective_iff)
      define tag' where "tag' = (if tag_name tag = js ''EXT-X-STREAM-INF''
         then addAttribute tag
                \<lparr>attr_name = js ''URI'', attr_value = (case ls of [] \<Rightarrow> None | n # _ \<Rightarrow> Some n)\<rparr>
         else tag)"
      define st2 where "st2 = st1\<lparr>p_tags := p_tags st1 @ [tag'],
                             p_tagIndex := updateTagIndexForTag' (p_tagIndex st1) tag',
                             p_skip := (tag_name tag' = js ''EXT-X-STREAM-INF'')\<rparr>"
      have tn': "tag_name tag' = tag_name tag" by (simp add: tag'_def addAttribute_def)
      have step: "scanLines (l # ls) st = scanLines ls st2"
        using False t seg by (simp add: Let_def st1_def st2_def tag'_def)
      have sk: "p_skip st2 = (tagName l = Some (js ''EXT-X-STREAM-INF''))"
        using tn tn' by (auto simp: st2_def)
      have sl: "segmentLines (p_skip st) (l # ls) = segmentLines (p_skip st2) ls"
        using False nsd sk by simp
      from Cons.prems step have "scanLines ls st2 = Inr p" by simp
      from Cons.IH [OF this] show ?thesis unfolding sl .
    qed
  qed
qed

text \<open>The segments of the segment parser: one for each URI line, and at most one more.\<close>

lemma parseSegments'_uris:
  assumes "parseSegments' ls tags idx g = Inr s"
  shows "\<exists>segs rest. s_segments s = segs @ rest
       \<and> map verbatimSegmentUri segs = map trim (filter isUriLine ls)
       \<and> (rest = [] \<or> (\<exists>final. rest = [final] \<and> verbatimSegmentUri final = []
                                \<and> partialSegments final \<noteq> []))"
proof -
  let ?init = "\<lparr>s_segments = [], s_segmentTags = [], s_partialSegmentTags = [],
              s_currentMapTag = None, s_gapCount = 0, s_lastExtinfDuration = None,
              s_computed = createDefaultComputed', s_playlistTags = tags,
              s_tagIndex = idx, s_globalId = g\<rparr>"
  from assms obtain st where l: "segmentsLoop ls ?init = Inr st" and f: "finishSegments st = Inr s"
    by (auto simp: parseSegments'_def split: sum.splits)
  from segmentsLoop_general [OF l] have
    u: "map verbatimSegmentUri (s_segments st) = map trim (filter isUriLine ls)"
    by auto
  from f have "s_segments s = s_segments st @ []
      \<or> (\<exists>final. s_segments s = s_segments st @ [final] \<and> verbatimSegmentUri final = []
                   \<and> partialSegments final \<noteq> [])"
    by (auto simp: finishSegments_def Let_def newSegment_def split: if_splits sum.splits)
  with u show ?thesis by blast
qed

text \<open>
  C2. As stated, the segment list is non-null exactly for a MEDIA playlist, and null for a
  MASTER playlist. The parser passes the empty array for a playlist that never enters
  segment mode, and the constructor keeps an array, also an empty one. The claim as
  amended: the segment list of a parsed playlist is never null. It holds one segment for
  each URI line of segment mode, in the order of the lines and with the trimmed line as
  URI, and after them at most one more segment, which has the empty URI and hosts
  dangling partial segments; the segment count of the computed view is the length of the
  list. A playlist that never enters segment mode, which every MASTER playlist is, has the
  empty list; a playlist that enters segment mode has the type MEDIA.
\<close>

theorem C2_segment_list:
  assumes "parsePlaylist g str = Inr p"
  shows "\<exists>segs rest. pl_segments p = Some (segs @ rest)
       \<and> map verbatimSegmentUri segs
           = map trim (filter isUriLine (segmentLines True (linesOf str)))
       \<and> (rest = [] \<or> (\<exists>final. rest = [final] \<and> verbatimSegmentUri final = []
                                \<and> partialSegments final \<noteq> []))
       \<and> count (segments (pl_computed p)) = length (segs @ rest)
       \<and> (segmentLines True (linesOf str) = [] \<longrightarrow> segs @ rest = [])
       \<and> (segmentLines True (linesOf str) \<noteq> [] \<longrightarrow> pl_type p = MEDIA)
       \<and> (pl_type p = MASTER \<longrightarrow> segs @ rest = [])"
proof -
  let ?st0 = "\<lparr>p_playlistType = MASTER, p_typeDetected = False, p_tags = [],
            p_tagIndex = createDefaultTagIndex', p_skip = True, p_globalId = g\<rparr>"
  from assms have sc: "scanLines (linesOf str) ?st0 = Inr p"
    by (simp add: parsePlaylist_def Let_def split: if_splits)
  note r = scanLines_segmentLines [OF sc]
  show ?thesis
  proof (cases "segmentLines True (linesOf str) = []")
    case True
    with r have "pl_segments p = Some []"
      "segments (pl_computed p) = createDefaultSegmentsComputed'" by simp_all
    with True show ?thesis by (simp add: createDefaultSegmentsComputed'_def)
  next
    case False
    with r obtain tags idx g' s where ty: "pl_type p = MEDIA"
      and s: "parseSegments' (segmentLines True (linesOf str)) tags idx g' = Inr s"
      and p: "pl_segments p = Some (s_segments s)" "segments (pl_computed p) = analysis s"
      by auto
    from parseSegments'_uris [OF s] obtain segs rest where
      "s_segments s = segs @ rest"
      "map verbatimSegmentUri segs = map trim (filter isUriLine (segmentLines True (linesOf str)))"
      "rest = [] \<or> (\<exists>final. rest = [final] \<and> verbatimSegmentUri final = []
                                \<and> partialSegments final \<noteq> [])"
      by blast
    with False ty p show ?thesis
      by (intro exI [of _ segs] exI [of _ rest]) (simp add: analysis_def)
  qed
qed

text \<open>The master playlist of the unit tests has the type MASTER and a segment list that is
  not null.\<close>

theorem C2_counterexample:
  "map_sum id pl_type (parsePlaylist 0 doc_master) = Inr MASTER
   \<and> map_sum id pl_segments (parsePlaylist 0 doc_master) = Inr (Some [])"
  by code_simp

text \<open>The theorem at the playlist of the unit test ``parses segments with partial
  segments'': a MEDIA playlist with a segment for each of its two URI lines and one more
  segment.\<close>

theorem C2_witness:
  "\<exists>p segs rest. parsePlaylist 0 doc_dangling_parts = Inr p \<and> pl_type p = MEDIA
     \<and> pl_segments p = Some (segs @ rest)
     \<and> map verbatimSegmentUri segs = [js ''uri'', js ''uri2'']
     \<and> count (segments (pl_computed p)) = length (segs @ rest)"
proof -
  have "\<not> isl (parsePlaylist 0 doc_dangling_parts)" by code_simp
  then obtain p where p: "parsePlaylist 0 doc_dangling_parts = Inr p"
    by (cases "parsePlaylist 0 doc_dangling_parts") auto
  have 1: "map trim (filter isUriLine (segmentLines True (linesOf doc_dangling_parts)))
             = [js ''uri'', js ''uri2'']"
    by code_simp
  have 2: "segmentLines True (linesOf doc_dangling_parts) \<noteq> []" by code_simp
  from C2_segment_list [OF p] obtain segs rest where
    r: "pl_segments p = Some (segs @ rest)"
      "map verbatimSegmentUri segs
         = map trim (filter isUriLine (segmentLines True (linesOf doc_dangling_parts)))"
      "count (segments (pl_computed p)) = length (segs @ rest)"
      "segmentLines True (linesOf doc_dangling_parts) \<noteq> [] \<longrightarrow> pl_type p = MEDIA"
    by blast
  from r(4) 2 have ty: "pl_type p = MEDIA" by simp
  show ?thesis
    by (rule exI [of _ p], rule exI [of _ segs], rule exI [of _ rest])
       (use p ty r(1,3) r(2) [unfolded 1] in simp)
qed

subsection \<open>The carried initialization segment\<close>

text \<open>
  The computed map of the segment that a URI line emits. In a document with the playlist
  part \<open>ls1\<close> and a segment part, let the URI line \<open>u\<close> end the tag run \<open>run\<close> that begins at
  a segment boundary. The segment emitted at \<open>u\<close> has as computed map the first
  initialization-segment tag of \<open>run\<close> when there is one, and otherwise the most recent one
  of the earlier lines \<open>pre\<close> of the segment part, across any number of segment boundaries;
  it is not null when any such tag occurs in \<open>pre\<close> or \<open>run\<close>.
\<close>

lemma segment_computed_map:
  assumes "parsePlaylist g str = Inr p"
    and "linesOf str = ls1 @ pre @ run @ u # post"
    and "playlistPart ls1" and "segmentPart (pre @ run @ u # post)"
    and "pre = [] \<or> isUriLine (last pre)"
    and "\<forall>l\<in>set run. \<not> isUriLine l"
    and "isUriLine u"
  shows "\<exists>segs. pl_segments p = Some segs
       \<and> length (filter isUriLine pre) < length segs
       \<and> verbatimSegmentUri (segs ! length (filter isUriLine pre)) = trim u
       \<and> map_c (seg_computed (segs ! length (filter isUriLine pre)))
           = (case initTags (g + length (handed True ls1) + 1 + numDirectives pre) run of
                m # _ \<Rightarrow> Some m
              | [] \<Rightarrow> carriedMap (g + length (handed True ls1) + 1) pre)
       \<and> (initTags (g + length (handed True ls1) + 1) (pre @ run) \<noteq> [] \<longrightarrow>
            map_c (seg_computed (segs ! length (filter isUriLine pre))) \<noteq> None)"
proof -
  from parsePlaylist_segment_mode [OF assms(1) assms(2) assms(3) assms(4)]
  obtain tags idx s where
    s: "parseSegments' (pre @ run @ u # post) tags idx (g + length (handed True ls1) + 1) = Inr s"
    and p: "pl_segments p = Some (s_segments s)" by blast
  note m = parseSegments'_map [OF s assms(5) assms(6) assms(7)]
  have "map_c (seg_computed (s_segments s ! length (filter isUriLine pre))) \<noteq> None"
    if "initTags (g + length (handed True ls1) + 1) (pre @ run) \<noteq> []"
  proof (cases "initTags (g + length (handed True ls1) + 1 + numDirectives pre) run")
    case Nil
    with that have "initTags (g + length (handed True ls1) + 1) pre \<noteq> []"
      by (simp add: initTags_append)
    then have "carriedMap (g + length (handed True ls1) + 1) pre \<noteq> None"
      by (simp add: carriedMap_def lastOr_last)
    with m Nil show ?thesis by simp
  next
    case (Cons a list)
    with m show ?thesis by simp
  qed
  with m p show ?thesis by simp
qed

lemma segment_computed_map_example:
  "\<exists>p segs. parsePlaylist 0 doc_dangling_parts = Inr p \<and> pl_segments p = Some segs
     \<and> 1 < length segs \<and> verbatimSegmentUri (segs ! 1) = js ''uri2''
     \<and> map_option tag_id (map_c (seg_computed (segs ! 1))) = Some 2"
proof -
  define ls1 where "ls1 = [js ''#EXTM3U'', js ''#EXT-X-TARGETDURATION:6'']"
  define pre where \<open>pre = [js ''#EXT-X-MAP:URI="init.mp4"'', js ''#EXTINF:5'', js ''uri'']\<close>
  define run where \<open>run = [js ''#EXT-X-PART:DURATION=1,URI="uri2.1"'', js ''#EXT-X-PART:DURATION=1,URI="uri2.2"'',
      js ''#EXTINF:2'']\<close>
  define post where \<open>post = [js ''#EXT-X-PART:DURATION=1,URI="uri3.1"'']\<close>
  have "\<not> isl (parsePlaylist 0 doc_dangling_parts)" by code_simp
  then obtain p where p: "parsePlaylist 0 doc_dangling_parts = Inr p"
    by (cases "parsePlaylist 0 doc_dangling_parts") auto
  have 1: "linesOf doc_dangling_parts = ls1 @ pre @ run @ js ''uri2'' # post"
    unfolding ls1_def pre_def run_def post_def by code_simp
  have 2: "playlistPart ls1" unfolding ls1_def by code_simp
  have 3: "segmentPart (pre @ run @ js ''uri2'' # post)" unfolding pre_def run_def post_def by code_simp
  have 4: "pre = [] \<or> isUriLine (last pre)" unfolding pre_def by code_simp
  have 5: "\<forall>l\<in>set run. \<not> isUriLine l" unfolding run_def by code_simp
  have 6: "isUriLine (js ''uri2'')" by code_simp
  have 7: "length (filter isUriLine pre) = 1" unfolding pre_def by code_simp
  have 8: "map_option tag_id (case initTags (0 + length (handed True ls1) + 1 + numDirectives pre) run of
                m # _ \<Rightarrow> Some m
              | [] \<Rightarrow> carriedMap (0 + length (handed True ls1) + 1) pre) = Some 2"
    unfolding ls1_def pre_def run_def by code_simp
  have 9: "trim (js ''uri2'') = js ''uri2''" by code_simp
  from segment_computed_map [OF p 1 2 3 4 5 6] obtain segs where
    "pl_segments p = Some segs" "length (filter isUriLine pre) < length segs"
    "verbatimSegmentUri (segs ! length (filter isUriLine pre)) = trim (js ''uri2'')"
    "map_c (seg_computed (segs ! length (filter isUriLine pre)))
           = (case initTags (0 + length (handed True ls1) + 1 + numDirectives pre) run of
                m # _ \<Rightarrow> Some m
              | [] \<Rightarrow> carriedMap (0 + length (handed True ls1) + 1) pre)"
    by metis
  with p 7 8 9 show ?thesis by metis
qed


subsection \<open>Dangling partial segments\<close>

text \<open>
  C7. As stated, every document that ends with partial-segment directives without a URI line
  yields one more segment for them. That segment is made in segment mode only; a document
  without segment-only directive keeps the directives as playlist tags and has no segment.
  The claim as amended: in a document with the playlist part \<open>ls1\<close> and a segment part, let
  \<open>tail\<close> be the lines after the last URI line of the segment part (or the whole segment
  part), with at least one partial-segment directive. A playlist that the parse returns has
  one segment for each URI line and one more segment at the end: its URI is empty, its
  partial segments are the partial-segment tags of \<open>tail\<close>, its tags are the segment-scoped
  tags of \<open>tail\<close> and the carried map, and its computed view is computed from scratch over
  these tags, so its computed map is the carried map.
\<close>

theorem C7_dangling_partial_segments:
  assumes "parsePlaylist g str = Inr p"
    and "linesOf str = ls1 @ pre @ tail"
    and "playlistPart ls1" and "segmentPart (pre @ tail)"
    and "pre = [] \<or> isUriLine (last pre)"
    and "\<forall>l\<in>set tail. \<not> isUriLine l"
    and "filter isPartialTag
           (directiveTags (g + length (handed True ls1) + 1 + numDirectives pre) tail) \<noteq> []"
  shows "\<exists>segs final. pl_segments p = Some (segs @ [final])
       \<and> length segs = length (filter isUriLine pre)
       \<and> verbatimSegmentUri final = []
       \<and> partialSegments final
            = filter isPartialTag
                (directiveTags (g + length (handed True ls1) + 1 + numDirectives pre) tail)
       \<and> seg_tags final
            = filter isSegmentScoped
                (directiveTags (g + length (handed True ls1) + 1 + numDirectives pre) tail)
              @ (case carriedMap (g + length (handed True ls1) + 1) (pre @ tail) of
                   Some m \<Rightarrow> [m] | None \<Rightarrow> [])
       \<and> updateComputedForTags createDefaultComputed' (seg_tags final) = Inr (seg_computed final)
       \<and> map_c (seg_computed final) = carriedMap (g + length (handed True ls1) + 1) (pre @ tail)"
proof -
  from parsePlaylist_segment_mode [OF assms(1) assms(2) assms(3) assms(4)]
  obtain tags idx s where
    s: "parseSegments' (pre @ tail) tags idx (g + length (handed True ls1) + 1) = Inr s"
    and p: "pl_segments p = Some (s_segments s)" by blast
  from parseSegments'_dangling [OF s assms(5) assms(6) assms(7)] obtain segs final where
    d: "s_segments s = segs @ [final]" "length segs = length (filter isUriLine pre)"
       "verbatimSegmentUri final = []"
       "partialSegments final = filter isPartialTag
            (directiveTags (g + length (handed True ls1) + 1 + numDirectives pre) tail)"
       "seg_tags final = filter isSegmentScoped
            (directiveTags (g + length (handed True ls1) + 1 + numDirectives pre) tail)
          @ (case carriedMap (g + length (handed True ls1) + 1) (pre @ tail) of
               Some m \<Rightarrow> [m] | None \<Rightarrow> [])"
       "updateComputedForTags createDefaultComputed' (seg_tags final) = Inr (seg_computed final)"
    by blast
  from d(6) [unfolded d(5)] have
    "map_c (seg_computed final) = carriedMap (g + length (handed True ls1) + 1) (pre @ tail)"
    by (rule scratch_computed_map) (rule carriedMap_name)
  with d p show ?thesis by simp
qed

text \<open>A document that ends with a partial-segment directive and never enters segment
  mode: no segment, and the directive is a playlist tag.\<close>

theorem C7_counterexample:
  "map_sum id pl_segments (parsePlaylist 0 doc_part_only) = Inr (Some [])
   \<and> map_sum id (map tag_name \<circ> pl_tags) (parsePlaylist 0 doc_part_only)
       = Inr [js ''EXT-X-TARGETDURATION'', js ''EXT-X-PART'']"
  by code_simp

theorem C7_witness:
  "\<exists>p segs final. parsePlaylist 0 doc_dangling_parts = Inr p
     \<and> pl_segments p = Some (segs @ [final]) \<and> length segs = 2
     \<and> verbatimSegmentUri final = [] \<and> map tag_id (partialSegments final) = [7]
     \<and> map tag_id (seg_tags final) = [2]"
proof -
  define ls1 where "ls1 = [js ''#EXTM3U'', js ''#EXT-X-TARGETDURATION:6'']"
  define pre where \<open>pre = [js ''#EXT-X-MAP:URI="init.mp4"'', js ''#EXTINF:5'', js ''uri'',
      js ''#EXT-X-PART:DURATION=1,URI="uri2.1"'', js ''#EXT-X-PART:DURATION=1,URI="uri2.2"'',
      js ''#EXTINF:2'', js ''uri2'']\<close>
  define tail where \<open>tail = [js ''#EXT-X-PART:DURATION=1,URI="uri3.1"'']\<close>
  have "\<not> isl (parsePlaylist 0 doc_dangling_parts)" by code_simp
  then obtain p where p: "parsePlaylist 0 doc_dangling_parts = Inr p"
    by (cases "parsePlaylist 0 doc_dangling_parts") auto
  have 1: "linesOf doc_dangling_parts = ls1 @ pre @ tail"
    unfolding ls1_def pre_def tail_def by code_simp
  have 2: "playlistPart ls1" unfolding ls1_def by code_simp
  have 3: "segmentPart (pre @ tail)" unfolding pre_def tail_def by code_simp
  have 4: "pre = [] \<or> isUriLine (last pre)" unfolding pre_def by code_simp
  have 5: "\<forall>l\<in>set tail. \<not> isUriLine l" unfolding tail_def by code_simp
  have 6: "map tag_id (filter isPartialTag (directiveTags (0 + length (handed True ls1) + 1 + numDirectives pre) tail)) = [7]"
    unfolding ls1_def pre_def tail_def by code_simp
  then have 7: "filter isPartialTag (directiveTags (0 + length (handed True ls1) + 1 + numDirectives pre) tail) \<noteq> []"
    by auto
  have 8: "length (filter isUriLine pre) = 2" unfolding pre_def by code_simp
  have 9: "map tag_id (filter isSegmentScoped (directiveTags (0 + length (handed True ls1) + 1 + numDirectives pre) tail)
              @ (case carriedMap (0 + length (handed True ls1) + 1) (pre @ tail) of
                   Some m \<Rightarrow> [m] | None \<Rightarrow> [])) = [2]"
    unfolding ls1_def pre_def tail_def by code_simp
  from C7_dangling_partial_segments [OF p 1 2 3 4 5 7] obtain segs final where
    "pl_segments p = Some (segs @ [final])" "length segs = length (filter isUriLine pre)"
    "verbatimSegmentUri final = []"
    "partialSegments final = filter isPartialTag (directiveTags (0 + length (handed True ls1) + 1 + numDirectives pre) tail)"
    "seg_tags final = filter isSegmentScoped (directiveTags (0 + length (handed True ls1) + 1 + numDirectives pre) tail)
              @ (case carriedMap (0 + length (handed True ls1) + 1) (pre @ tail) of
                   Some m \<Rightarrow> [m] | None \<Rightarrow> [])"
    by metis
  with p 6 8 9 show ?thesis by metis
qed

subsection \<open>Gap accounting\<close>

text \<open>
  C1. The gap count of a media playlist should be the number of segments and partial
  segments flagged as a gap, 3 for the playlist of the unit test. The parser counts a
  segment only when its computed \<^verbatim>\<open>gap\<close> field is set, which only an \<^verbatim>\<open>EXT-X-GAP\<close> tag
  does; a partial segment with \<^verbatim>\<open>GAP=YES\<close> is not counted. On the playlist of the unit test
  the parser reports three segments and a gap count of 1.
\<close>

theorem C1_gapCount_mixed_gaps:
  "map_sum id (segments \<circ> pl_computed) (parsePlaylist 0 doc_mixed_gaps)
     = Inr \<lparr>count = 3, gapCount = 1, lastExtinfDuration = Some (numberOfInt 6)\<rparr>"
  by code_simp

subsection \<open>Single-valued slots of the tag index\<close>

text \<open>
  C4. Each single-valued slot should keep the first tag of its name. The skip slot is
  assigned without the guard that the other six slots have: of two \<^verbatim>\<open>EXT-X-SKIP\<close> tags the
  second one (id 1) ends up in the slot, with its count of skipped segments.
\<close>

theorem C4_skip_slot_last_wins:
  "map_sum id (skipTag \<circ> playlist \<circ> pl_computed) (parsePlaylist 0 doc_two_skips)
     = Inr (Some \<lparr>tag_id = 1, tag_name = js ''EXT-X-SKIP'',
                  tag_attributes = [\<lparr>attr_name = js ''SKIPPED-SEGMENTS'', attr_value = Some (js ''2'')\<rparr>],
                  tag_value = None\<rparr>)"
  by code_simp

end
